theory Spec2Isabelle
  imports Main "HOL-Library.Word"
begin

section \<open>Data model of the action injector (inject.go)\<close>

text \<open>
  Go's \<open>uint64\<close> is a 64-bit word: \<open>nonce + 1\<close> and \<open>count++\<close> wrap around.
  Addresses are the encoded strings that key the nonce cache.
\<close>

type_synonym uint64 = "64 word"
type_synonym address = string
type_synonym go_error = string

text \<open>
  What stops a goroutine other than returning: a run-time panic (nil dereference, failed
  type assertion, integer division by zero, \<open>rand.Intn\<close> of a non-positive bound) or
  \<open>log.L().Fatal\<close>, which ends the whole process.
\<close>

datatype fault = Panic string | Fatal string

text \<open>
  Keys are opaque to this file. A private key is kept together with the address that
  \<open>account.PrivateKeyToAccount(private).Address().String()\<close> derives from it, a public
  key with the result of its \<open>Address()\<close> method (which may be nil).
\<close>

datatype private_key = PrivateKey (sk_hex: string) (sk_address: address)
datatype public_key = PublicKey (pk_hex: string) (pk_address: "address option")

record KeyPair =
  PK :: string
  SK :: string

record AddressKey =
  EncodedAddr :: address
  PriKey :: private_key

subsection \<open>The nonce cache\<close>

text \<open>
  \<open>p.nonces\<close> is a \<open>*ttl.Cache\<close> of the imported package go-pkgs/cache/ttl, created with
  \<open>ttl.NewCache()\<close> and no option: a mutex-protected table from keys to \<open>interface{}\<close>
  values in which entries do not expire. It is modelled as an association list with one
  entry per key; each of \<open>Get\<close>, \<open>Set\<close> and \<open>Keys\<close> is one indivisible operation.
  A stored value carries its dynamic type: \<open>Set(addr, 1)\<close> and \<open>Set(addr, 0)\<close> store a Go
  \<open>int\<close>, \<open>Set(addr, nonce+1)\<close> and \<open>Set(addr, resp...GetPendingNonce())\<close> a \<open>uint64\<close>.
\<close>

datatype cache_val = GoInt int | GoUint64 uint64

type_synonym nonce_cache = "(address \<times> cache_val) list"

definition cache_Get :: "nonce_cache \<Rightarrow> address \<Rightarrow> cache_val option" where
  "cache_Get c k = map_of c k"

fun cache_Set :: "address \<Rightarrow> cache_val \<Rightarrow> nonce_cache \<Rightarrow> nonce_cache" where
  "cache_Set k v [] = [(k, v)]"
| "cache_Set k v ((k', v') # c) =
     (if k' = k then (k, v) # c else (k', v') # cache_Set k v c)"

definition cache_Keys :: "nonce_cache \<Rightarrow> address list" where
  "cache_Keys c = map fst c"

record injectProcessor =
  chainID :: "32 word"
  nonces :: nonce_cache
  accounts :: "AddressKey list"

text \<open>The fields of \<open>injectCfg\<close> that the modelled functions read.\<close>

record injectCfg =
  transferGasLimit :: uint64
  transferGasPrice :: int
  transferAmount :: int
  contract :: string
  executionAmount :: int
  executionGasLimit :: uint64
  executionGasPrice :: int
  actionType :: string
  retryNum :: uint64
  retryInterval :: int
  aps :: int
  workers :: uint64
  checkReceipt :: bool
  cfg_randAccounts :: int
  loadTokenAmount :: int

text \<open>The flag defaults of \<open>init\<close> (lines 445-468).\<close>

definition default_cfg :: injectCfg where
  "default_cfg =
     \<lparr>transferGasLimit = 20000, transferGasPrice = 1000000000000, transferAmount = 0,
      contract = ''io1pmjhyksxmz2xpxn2qmz4gx9qq2kn2gdr8un4xq'', executionAmount = 0,
      executionGasLimit = 100000, executionGasPrice = 1000000000000,
      actionType = ''transfer'', retryNum = 5, retryInterval = 1000000000, aps = 30,
      workers = 10, checkReceipt = False, cfg_randAccounts = 20, loadTokenAmount = 0\<rparr>"

subsection \<open>Randomness\<close>

text \<open>
  \<open>math/rand\<close> is the process-wide generator. Its output is an input of the model: a
  sequence of raw draws, consumed in call order. \<open>rand.Intn(n)\<close> panics for \<open>n \<le> 0\<close>
  and otherwise returns a value below \<open>n\<close>; \<open>rand.Int63()\<close> returns a value below \<open>2^63\<close>.
\<close>

type_synonym rand_source = "nat \<Rightarrow> nat"

definition rand_Intn :: "nat \<Rightarrow> rand_source \<Rightarrow> fault + (nat \<times> rand_source)" where
  "rand_Intn n r =
     (if n = 0 then Inl (Panic ''invalid argument to Intn'')
      else Inr (r 0 mod n, \<lambda>i. r (Suc i)))"

definition rand_Int63 :: "rand_source \<Rightarrow> nat \<times> rand_source" where
  "rand_Int63 r = (r 0 mod 2 ^ 63, \<lambda>i. r (Suc i))"

subsection \<open>Nonce allocation and the action builders\<close>

text \<open>
  Lines 315-320 of \<open>transferCaller\<close> and, word for word, lines 287-292 of
  \<open>executionCaller\<close>:
  \<^verbatim>\<open>
    var nonce uint64
    if val, ok := p.nonces.Get(sender.EncodedAddr); ok {
        nonce = val.(uint64)
    }
    p.nonces.Set(sender.EncodedAddr, nonce+1)
  \<close>
  The read (\<open>alloc_get\<close>) and the write (\<open>alloc_set\<close>) are two separate cache operations.
  The type assertion has no comma-ok form, so it panics on a value that is not a \<open>uint64\<close>.
\<close>

definition alloc_get :: "nonce_cache \<Rightarrow> address \<Rightarrow> fault + uint64" where
  "alloc_get c a =
     (case cache_Get c a of
        None \<Rightarrow> Inr 0
      | Some (GoUint64 v) \<Rightarrow> Inr v
      | Some (GoInt i) \<Rightarrow> Inl (Panic ''interface conversion: interface {} is int, not uint64''))"

definition alloc_set :: "nonce_cache \<Rightarrow> address \<Rightarrow> uint64 \<Rightarrow> nonce_cache" where
  "alloc_set c a nonce = cache_Set a (GoUint64 (nonce + 1)) c"

definition allocate :: "nonce_cache \<Rightarrow> address \<Rightarrow> fault + (uint64 \<times> nonce_cache)" where
  "allocate c a =
     (case alloc_get c a of
        Inl f \<Rightarrow> Inl f
      | Inr nonce \<Rightarrow> Inr (nonce, alloc_set c a nonce))"

text \<open>
  The payload is \<open>sha256.Sum256\<close> of the 8 big-endian bytes of the \<open>rand.Int63()\<close> draw;
  the digest is kept symbolic, as the hash of that 64-bit value.
\<close>

datatype digest = Sha256Sum uint64

datatype caller =
    Transfer (call_sender: AddressKey) (call_recipient: address) (call_amount: int)
      (call_payload: digest) (call_nonce: uint64) (call_gasPrice: int) (call_gasLimit: uint64)
  | Execute (call_sender: AddressKey) (call_contract: address) (call_method: string)
      (call_timestamp: uint64) (call_data: digest) (call_nonce: uint64) (call_amount: int)
      (call_gasPrice: int) (call_gasLimit: uint64)

text \<open>
  A builder returns Go's pair \<open>(caller, error)\<close>, the processor (its cache updated) and
  the rest of the random draws, or stops with a panic.
\<close>

type_synonym build_result = "fault + ((caller \<times> go_error option) \<times> injectProcessor \<times> rand_source)"

definition transferCaller :: "injectCfg \<Rightarrow> injectProcessor \<Rightarrow> rand_source \<Rightarrow> build_result" where
  "transferCaller cfg p r =
     (case rand_Intn (length (accounts p)) r of
        Inl f \<Rightarrow> Inl f
      | Inr (i, r1) \<Rightarrow>
          let sender = accounts p ! i in
          (case allocate (nonces p) (EncodedAddr sender) of
             Inl f \<Rightarrow> Inl f
           | Inr (nonce, c') \<Rightarrow>
               (case rand_Intn (length (accounts p)) r1 of
                  Inl f \<Rightarrow> Inl f
                | Inr (j, r2) \<Rightarrow>
                    let recipient = EncodedAddr (accounts p ! j);
                        (data, r3) = rand_Int63 r2
                    in Inr ((Transfer sender recipient (transferAmount cfg)
                               (Sha256Sum (of_nat data)) nonce
                               (transferGasPrice cfg) (transferGasLimit cfg), None),
                            p\<lparr>nonces := c'\<rparr>, r3))))"

definition executionCaller :: "injectCfg \<Rightarrow> int \<Rightarrow> injectProcessor \<Rightarrow> rand_source \<Rightarrow> build_result" where
  "executionCaller cfg unix_now p r =
     (case rand_Intn (length (accounts p)) r of
        Inl f \<Rightarrow> Inl f
      | Inr (i, r1) \<Rightarrow>
          let sender = accounts p ! i in
          (case allocate (nonces p) (EncodedAddr sender) of
             Inl f \<Rightarrow> Inl f
           | Inr (nonce, c') \<Rightarrow>
               let (data, r2) = rand_Int63 r1
               in Inr ((Execute sender (contract cfg) ''addHash'' (word_of_int unix_now)
                          (Sha256Sum (of_nat data)) nonce (executionAmount cfg)
                          (executionGasPrice cfg) (executionGasLimit cfg), None),
                       p\<lparr>nonces := c'\<rparr>, r2)))"

definition pickAction :: "injectCfg \<Rightarrow> int \<Rightarrow> injectProcessor \<Rightarrow> rand_source \<Rightarrow> build_result" where
  "pickAction cfg unix_now p r =
     (if actionType cfg = ''transfer'' then transferCaller cfg p r
      else if actionType cfg = ''execution'' then executionCaller cfg unix_now p r
      else if actionType cfg = ''mixed'' then
        (case rand_Intn 2 r of
           Inl f \<Rightarrow> Inl f
         | Inr (coin, r1) \<Rightarrow>
             if coin = 0 then transferCaller cfg p r1
             else executionCaller cfg unix_now p r1)
      else transferCaller cfg p r)"

text \<open>
  Line 195 of \<open>syncNonces\<close>, the synchronizer's write:
  \<open>p.nonces.Set(addr, resp.GetAccountMeta().GetPendingNonce())\<close>.
\<close>

definition overwrite :: "nonce_cache \<Rightarrow> address \<Rightarrow> uint64 \<Rightarrow> nonce_cache" where
  "overwrite c a v = cache_Set a (GoUint64 v) c"

text \<open>
  The builders run without a panic when there is an account to pick and no account's
  cache entry holds a Go \<open>int\<close> (the state \<open>syncNonces\<close> leaves behind).
\<close>

definition uint64_entry :: "nonce_cache \<Rightarrow> address \<Rightarrow> bool" where
  "uint64_entry c a = (case cache_Get c a of Some (GoInt i) \<Rightarrow> False | _ \<Rightarrow> True)"

definition ready :: "injectProcessor \<Rightarrow> bool" where
  "ready p = (accounts p \<noteq> [] \<and> list_all (\<lambda>ak. uint64_entry (nonces p) (EncodedAddr ak)) (accounts p))"

text \<open>Which of the two builders produced a caller.\<close>

fun is_transfer :: "caller \<Rightarrow> bool" where
  "is_transfer (Transfer s rc am pl n gp gl) = True"
| "is_transfer (Execute s ct m ts d n am gp gl) = False"

definition built :: "build_result \<Rightarrow> caller option" where
  "built res = (case res of Inl f \<Rightarrow> None | Inr ((cl, err), p', r') \<Rightarrow> Some cl)"

subsection \<open>Concurrent callers of the allocation\<close>

text \<open>
  Every token is worked off in a goroutine of its own (\<open>go func() {...}()\<close>, line 237),
  so several callers can be inside the allocation lines for the same address at once.
  The cache serialises single operations only. A caller is therefore a two-step program,
  \<open>Get\<close> then \<open>Set\<close>, and an execution is a schedule: the list of the callers'
  indices in the order in which they take their next step. \<open>serial n\<close> lets callers
  \<open>0, ..., n - 1\<close> run one after the other.
\<close>

datatype alloc_pc = Start | Got uint64 | Returned uint64 | Crashed

definition alloc_step ::
  "address \<Rightarrow> nonce_cache \<times> alloc_pc list \<Rightarrow> nat \<Rightarrow> nonce_cache \<times> alloc_pc list" where
  "alloc_step a s i =
     (case s of (c, ts) \<Rightarrow>
        if i < length ts then
          (case ts ! i of
             Start \<Rightarrow>
               (case alloc_get c a of
                  Inl f \<Rightarrow> (c, ts[i := Crashed])
                | Inr nonce \<Rightarrow> (c, ts[i := Got nonce]))
           | Got nonce \<Rightarrow> (alloc_set c a nonce, ts[i := Returned nonce])
           | Returned nonce \<Rightarrow> (c, ts)
           | Crashed \<Rightarrow> (c, ts))
        else (c, ts))"

definition run_callers ::
  "address \<Rightarrow> nat list \<Rightarrow> nonce_cache \<times> alloc_pc list \<Rightarrow> nonce_cache \<times> alloc_pc list" where
  "run_callers a schedule s = foldl (alloc_step a) s schedule"

definition serial :: "nat \<Rightarrow> nat list" where
  "serial n = concat (map (\<lambda>i. [i, i]) [0..<n])"

fun handed_out :: "alloc_pc list \<Rightarrow> uint64 list" where
  "handed_out [] = []"
| "handed_out (Returned nonce # ts) = nonce # handed_out ts"
| "handed_out (t # ts) = handed_out ts"

subsection \<open>Retrying\<close>

text \<open>
  \<open>backoff.Retry\<close>, \<open>backoff.WithMaxRetries\<close>, \<open>backoff.NewConstantBackOff\<close> and
  \<open>backoff.NewExponentialBackOff\<close> come from the imported package
  github.com/cenkalti/backoff; their code is not among the source files. A policy is
  the sequence of its answers since its last reset: \<open>Some d\<close> is "wait \<open>d\<close> and try
  again", \<open>None\<close> is "stop". An operation is the sequence of the outcomes of its calls.
\<close>

type_synonym backoff_policy = "nat \<Rightarrow> int option"

text \<open>
  Modelled from the spec: \<open>backoff.Retry\<close>. An operation is "retried ... on transient
  failure": it is called, and called again after each failure for as long as the policy
  hands out a delay; a success ends the loop with the operation's value; when the policy
  is exhausted the last error is returned. The result carries the number of calls made.
  A loop that never ends is the value \<open>None\<close>.
\<close>

partial_function (option) Retry_from ::
  "(nat \<Rightarrow> go_error + 'a) \<Rightarrow> backoff_policy \<Rightarrow> nat \<Rightarrow> ((go_error + 'a) \<times> nat) option" where
  "Retry_from operation b k =
     (case operation k of
        Inr v \<Rightarrow> Some (Inr v, Suc k)
      | Inl e \<Rightarrow> (case b k of
                   None \<Rightarrow> Some (Inl e, Suc k)
                 | Some d \<Rightarrow> Retry_from operation b (Suc k)))"

definition Retry ::
  "(nat \<Rightarrow> go_error + 'a) \<Rightarrow> backoff_policy \<Rightarrow> ((go_error + 'a) \<times> nat) option" where
  "Retry operation b = Retry_from operation b 0"

text \<open>
  Modelled from the spec: \<open>backoff.NewConstantBackOff\<close> and \<open>backoff.WithMaxRetries\<close>.
  "A constant-interval backoff up to a configured maximum retry count": the same delay
  every time, and no delay any more once \<open>max\<close> retries have been granted.
\<close>

definition NewConstantBackOff :: "int \<Rightarrow> backoff_policy" where
  "NewConstantBackOff d = (\<lambda>k. Some d)"

definition WithMaxRetries :: "backoff_policy \<Rightarrow> uint64 \<Rightarrow> backoff_policy" where
  "WithMaxRetries b m = (\<lambda>k. if k < unat m then b k else None)"

text \<open>
  Modelled from the spec: \<open>backoff.NewExponentialBackOff\<close>. "Exponential backoff
  (unbounded retry count)": delays that grow geometrically from a first delay, and never
  "stop". The spec gives neither the first delay nor the factor; they are parameters.
\<close>

definition NewExponentialBackOff :: "int \<Rightarrow> int \<Rightarrow> backoff_policy" where
  "NewExponentialBackOff first factor = (\<lambda>k. Some (first * factor ^ k))"

subsection \<open>The nonce synchronizer\<close>

text \<open>
  \<open>syncNonces\<close> (lines 184-205). The remote service is the table \<open>api\<close>: \<open>api a k\<close> is
  what the \<open>k\<close>-th \<open>GetAccount\<close> call for address \<open>a\<close> of this round returns, an error or
  the account's pending nonce. The policy \<open>b\<close> stands for the value of
  \<open>backoff.NewExponentialBackOff()\<close>. \<open>log.L().Fatal\<close> ends the process: the loop stops
  at the first address whose \<open>Retry\<close> returns an error and no cache is returned.
\<close>

fun syncNonces_loop ::
  "(address \<Rightarrow> nat \<Rightarrow> go_error + uint64) \<Rightarrow> backoff_policy \<Rightarrow> address list \<Rightarrow> nonce_cache
     \<Rightarrow> (fault + nonce_cache) option" where
  "syncNonces_loop api b [] c = Some (Inr c)"
| "syncNonces_loop api b (addr # addrPool) c =
     (case Retry (api addr) b of
        None \<Rightarrow> None
      | Some (Inl err, n) \<Rightarrow> Some (Inl (Fatal ''Failed to inject actions by APS''))
      | Some (Inr pendingNonce, n) \<Rightarrow>
          syncNonces_loop api b addrPool (overwrite c addr pendingNonce))"

definition syncNonces ::
  "(address \<Rightarrow> nat \<Rightarrow> go_error + uint64) \<Rightarrow> backoff_policy \<Rightarrow> injectProcessor
     \<Rightarrow> (fault + injectProcessor) option" where
  "syncNonces api b p =
     (case syncNonces_loop api b (cache_Keys (nonces p)) (nonces p) of
        None \<Rightarrow> None
      | Some (Inl f) \<Rightarrow> Some (Inl f)
      | Some (Inr c) \<Rightarrow> Some (Inr (p\<lparr>nonces := c\<rparr>)))"

subsection \<open>The unit of work of a worker\<close>

text \<open>
  The goroutine body of \<open>inject\<close> (lines 237-266), after \<open>pickAction\<close>. \<open>sends k\<close> is
  what the \<open>k\<close>-th \<open>caller.Call\<close> returns (an error or the action hash), \<open>polls k\<close> what
  the \<open>k\<close>-th \<open>GetReceipt(actionHash).Call\<close> returns. A failed call returns no value, so
  it leaves \<open>actionHash\<close> zero and \<open>response\<close> nil. The pointers \<open>response.ReceiptInfo\<close>
  and \<open>.Receipt\<close> may be nil as well. \<open>Retry\<close> resets the policy, so both loops start
  from its first answer.
\<close>

type_synonym hash256 = "256 word"

datatype log_entry = LogError string

datatype receipt = Receipt (Status: uint64)
datatype receipt_info = ReceiptInfo (Receipt_of: "receipt option")
datatype receipt_response = GetReceiptByActionResponse (ReceiptInfo_of: "receipt_info option")

record work_end =
  w_log :: "log_entry list"
  w_fault :: "fault option"
  w_sends :: nat
  w_polls :: nat

definition retry_policy :: "injectCfg \<Rightarrow> backoff_policy" where
  "retry_policy cfg = WithMaxRetries (NewConstantBackOff (retryInterval cfg)) (retryNum cfg)"

definition submit ::
  "injectCfg \<Rightarrow> (nat \<Rightarrow> go_error + hash256) \<Rightarrow> (log_entry list \<times> hash256 \<times> nat) option" where
  "submit cfg sends =
     (case Retry sends (retry_policy cfg) of
        None \<Rightarrow> None
      | Some (Inl rerr, n) \<Rightarrow> Some ([LogError ''Failed to inject.''], 0, n)
      | Some (Inr actionHash, n) \<Rightarrow> Some ([], actionHash, n))"

definition receipt_status :: "receipt_response option \<Rightarrow> fault + uint64" where
  "receipt_status response =
     (case response of
        None \<Rightarrow> Inl (Panic ''invalid memory address or nil pointer dereference'')
      | Some resp \<Rightarrow>
          (case ReceiptInfo_of resp of
             None \<Rightarrow> Inl (Panic ''invalid memory address or nil pointer dereference'')
           | Some info \<Rightarrow>
               (case Receipt_of info of
                  None \<Rightarrow> Inl (Panic ''invalid memory address or nil pointer dereference'')
                | Some rcpt \<Rightarrow> Inr (Status rcpt))))"

definition check_receipt ::
  "injectCfg \<Rightarrow> (nat \<Rightarrow> go_error + receipt_response)
     \<Rightarrow> (log_entry list \<times> fault option \<times> nat) option" where
  "check_receipt cfg polls =
     (case Retry polls (retry_policy cfg) of
        None \<Rightarrow> None
      | Some (res, n) \<Rightarrow>
          let log1 = (case res of Inl rerr \<Rightarrow> [LogError ''Failed to get receipt.''] | Inr resp \<Rightarrow> []);
              response = (case res of Inl rerr \<Rightarrow> None | Inr resp \<Rightarrow> Some resp)
          in (case receipt_status response of
                Inl f \<Rightarrow> Some (log1, Some f, n)
              | Inr st \<Rightarrow>
                  if st \<noteq> 1 then Some (log1 @ [LogError ''Receipt has failed status.''], None, n)
                  else Some (log1, None, n)))"

definition submit_and_check ::
  "injectCfg \<Rightarrow> (nat \<Rightarrow> go_error + hash256) \<Rightarrow> (hash256 \<Rightarrow> nat \<Rightarrow> go_error + receipt_response)
     \<Rightarrow> work_end option" where
  "submit_and_check cfg sends polls =
     (case submit cfg sends of
        None \<Rightarrow> None
      | Some (log1, actionHash, n) \<Rightarrow>
          if checkReceipt cfg then
            (case check_receipt cfg (polls actionHash) of
               None \<Rightarrow> None
             | Some (log2, f, m) \<Rightarrow>
                 Some \<lparr>w_log = log1 @ log2, w_fault = f, w_sends = n, w_polls = m\<rparr>)
          else Some \<lparr>w_log = log1, w_fault = None, w_sends = n, w_polls = 0\<rparr>)"

definition inject_work ::
  "injectCfg \<Rightarrow> int \<Rightarrow> injectProcessor \<Rightarrow> rand_source \<Rightarrow> (caller \<Rightarrow> nat \<Rightarrow> go_error + hash256)
     \<Rightarrow> (hash256 \<Rightarrow> nat \<Rightarrow> go_error + receipt_response)
     \<Rightarrow> (work_end \<times> injectProcessor \<times> rand_source) option" where
  "inject_work cfg unix_now p r sends polls =
     (case pickAction cfg unix_now p r of
        Inl f \<Rightarrow> Some (\<lparr>w_log = [], w_fault = Some f, w_sends = 0, w_polls = 0\<rparr>, p, r)
      | Inr ((cl, err), p', r') \<Rightarrow>
          let log0 = (case err of Some e \<Rightarrow> [LogError ''Failed to create an action''] | None \<Rightarrow> [])
          in (case submit_and_check cfg (sends cl) polls of
                None \<Rightarrow> None
              | Some w \<Rightarrow> Some (w\<lparr>w_log := log0 @ w_log w\<rparr>, p', r')))"

subsection \<open>Account setup\<close>

text \<open>
  \<open>randAccounts\<close> (lines 108-121). \<open>keygen i\<close> is what the \<open>i\<close>-th call of
  \<open>crypto.GenerateKey()\<close> returns. \<open>make\<close> with a negative capacity panics. The cache is
  written as the loop goes, so an error return leaves the earlier writes in place and
  \<open>p.accounts\<close> as it was.
\<close>

fun randAccounts_loop ::
  "(go_error + private_key) list \<Rightarrow> nonce_cache \<Rightarrow> AddressKey list
     \<Rightarrow> nonce_cache \<times> (go_error + AddressKey list)" where
  "randAccounts_loop [] c addrKeys = (c, Inr addrKeys)"
| "randAccounts_loop (Inl err # ks) c addrKeys = (c, Inl err)"
| "randAccounts_loop (Inr private # ks) c addrKeys =
     randAccounts_loop ks (cache_Set (sk_address private) (GoInt 1) c)
       (addrKeys @ [\<lparr>EncodedAddr = sk_address private, PriKey = private\<rparr>])"

definition randAccounts ::
  "int \<Rightarrow> (nat \<Rightarrow> go_error + private_key) \<Rightarrow> injectProcessor
     \<Rightarrow> fault + (injectProcessor \<times> go_error option)" where
  "randAccounts num keygen p =
     (if num < 0 then Inl (Panic ''makeslice: cap out of range'')
      else (case randAccounts_loop (map keygen [0..<nat num]) (nonces p) [] of
              (c, Inl err) \<Rightarrow> Inr (p\<lparr>nonces := c\<rparr>, Some err)
            | (c, Inr addrKeys) \<Rightarrow> Inr (p\<lparr>nonces := c, accounts := addrKeys\<rparr>, None)))"

text \<open>
  \<open>loadAccounts\<close> (lines 123-170). The file read and the YAML decoding are the value
  \<open>keyfile\<close>; the hex decoders of go-pkgs/crypto are the functions of \<open>keylib\<close>.
  \<open>addr.String()\<close> is called for the log line before \<open>addr\<close> is compared with nil, so
  a nil address panics there. The loaded accounts stay in the local \<open>addrKeys\<close>: they
  fund the accounts of \<open>p.accounts\<close>, one transfer each (\<open>calls i\<close> is the outcome of the
  \<open>i\<close>-th), and \<open>i % len(addrKeys)\<close> panics when no pair was loaded.
\<close>

datatype keyfile = ReadFailed go_error | UnmarshalFailed go_error | Parsed "KeyPair list"

record keylib =
  HexStringToPublicKey :: "string \<Rightarrow> go_error + public_key"
  HexStringToPrivateKey :: "string \<Rightarrow> go_error + private_key"

fun loadAccounts_pairs ::
  "keylib \<Rightarrow> KeyPair list \<Rightarrow> nonce_cache \<Rightarrow> AddressKey list
     \<Rightarrow> nonce_cache \<times> (fault + (go_error + AddressKey list))" where
  "loadAccounts_pairs lib [] c addrKeys = (c, Inr (Inr addrKeys))"
| "loadAccounts_pairs lib (pair # pairs) c addrKeys =
     (case HexStringToPublicKey lib (PK pair) of
        Inl err \<Rightarrow> (c, Inr (Inl ''failed to decode public key''))
      | Inr pk \<Rightarrow>
          (case HexStringToPrivateKey lib (SK pair) of
             Inl err \<Rightarrow> (c, Inr (Inl ''failed to decode private key''))
           | Inr sk \<Rightarrow>
               (case pk_address pk of
                  None \<Rightarrow> (c, Inl (Panic ''invalid memory address or nil pointer dereference''))
                | Some addr \<Rightarrow>
                    loadAccounts_pairs lib pairs (cache_Set addr (GoInt 0) c)
                      (addrKeys @ [\<lparr>EncodedAddr = addr, PriKey = sk\<rparr>]))))"

definition send_tokens_log :: "(nat \<Rightarrow> go_error + hash256) \<Rightarrow> nat \<Rightarrow> log_entry list" where
  "send_tokens_log calls n =
     concat (map (\<lambda>i. case calls i of Inl err \<Rightarrow> [LogError ''Failed to inject.''] | Inr h \<Rightarrow> [])
               [0..<n])"

definition loadAccounts ::
  "keylib \<Rightarrow> keyfile \<Rightarrow> (nat \<Rightarrow> go_error + hash256) \<Rightarrow> injectProcessor
     \<Rightarrow> fault + (injectProcessor \<times> log_entry list \<times> go_error option)" where
  "loadAccounts lib file calls p =
     (case file of
        ReadFailed err \<Rightarrow> Inr (p, [], Some ''failed to read key pairs file'')
      | UnmarshalFailed err \<Rightarrow> Inr (p, [], Some ''failed to unmarshal key pairs bytes'')
      | Parsed pairs \<Rightarrow>
          (case loadAccounts_pairs lib pairs (nonces p) [] of
             (c, Inl f) \<Rightarrow> Inl f
           | (c, Inr (Inl err)) \<Rightarrow> Inr (p\<lparr>nonces := c\<rparr>, [], Some err)
           | (c, Inr (Inr addrKeys)) \<Rightarrow>
               if accounts p \<noteq> [] \<and> addrKeys = [] then Inl (Panic ''integer divide by zero'')
               else Inr (p\<lparr>nonces := c\<rparr>, send_tokens_log calls (length (accounts p)), None)))"

text \<open>
  Lines 96-103 of \<open>newInjectionProcessor\<close>: the random accounts first, then the key-pair
  file when a load amount is configured (\<open>BitLen() != 0\<close> is "not zero").
\<close>

definition init_accounts ::
  "injectCfg \<Rightarrow> (nat \<Rightarrow> go_error + private_key) \<Rightarrow> keylib \<Rightarrow> keyfile
     \<Rightarrow> (nat \<Rightarrow> go_error + hash256) \<Rightarrow> injectProcessor
     \<Rightarrow> fault + (injectProcessor \<times> log_entry list \<times> go_error option)" where
  "init_accounts cfg keygen lib file calls p =
     (case randAccounts (cfg_randAccounts cfg) keygen p of
        Inl f \<Rightarrow> Inl f
      | Inr (p1, Some err) \<Rightarrow> Inr (p1, [], Some err)
      | Inr (p1, None) \<Rightarrow>
          if loadTokenAmount cfg \<noteq> 0 then loadAccounts lib file calls p1
          else Inr (p1, [], None))"

subsection \<open>The pacing loop\<close>

text \<open>
  \<open>injectProcess\<close> (lines 207-232). Instants are nanoseconds on one clock; a
  \<open>time.Duration\<close> is a signed 64-bit count of nanoseconds. Go's integer division
  truncates towards zero and panics on a zero divisor; the conversion to \<open>uint64\<close> and
  the product \<open>count*interval\<close> wrap; \<open>Time.Sub\<close> saturates; \<open>time.Sleep\<close> returns at
  once for a duration that is zero or negative.
\<close>

definition go_quot :: "int \<Rightarrow> int \<Rightarrow> int" where
  "go_quot a b = (if (a < 0) = (b < 0) then \<bar>a\<bar> div \<bar>b\<bar> else - (\<bar>a\<bar> div \<bar>b\<bar>))"

definition interval_of :: "int \<Rightarrow> fault + uint64" where
  "interval_of target =
     (if target = 0 then Inl (Panic ''integer divide by zero'')
      else Inr (word_of_int (go_quot 1000000000 target)))"

definition next_send :: "int \<Rightarrow> uint64 \<Rightarrow> uint64 \<Rightarrow> int" where
  "next_send began interval count = began + sint (count * interval)"

definition time_Sub :: "int \<Rightarrow> int \<Rightarrow> int" where
  "time_Sub t u = max (- (2 ^ 63)) (min (2 ^ 63 - 1) (t - u))"

definition sleep_time :: "int \<Rightarrow> int" where
  "sleep_time d = max 0 d"

text \<open>
  The \<open>select\<close> of lines 222-230. \<open>ctx_done\<close> says whether \<open>ctx.Done()\<close> is closed,
  \<open>worker_ready\<close> whether a worker is blocked receiving from \<open>ticks\<close> (the channel is
  unbuffered). When both are possible Go picks one of them at random: \<open>coin\<close>. The
  \<open>default\<close> case runs only when neither is possible.
\<close>

datatype select_case = CtxDone | TickSent | NoneReady

definition select_tick :: "bool \<Rightarrow> bool \<Rightarrow> bool \<Rightarrow> select_case" where
  "select_tick ctx_done worker_ready coin =
     (if ctx_done \<and> worker_ready then (if coin then CtxDone else TickSent)
      else if ctx_done then CtxDone
      else if worker_ready then TickSent
      else NoneReady)"

text \<open>
  The state of the loop: the dispatch count, the number of workers started so far
  (\<open>workers.Add(1); go p.inject(...)\<close>) and the tokens handed to workers, oldest first.
\<close>

record pacer =
  count :: uint64
  pool :: nat
  handed :: "uint64 list"

definition start_pacer :: "injectCfg \<Rightarrow> pacer" where
  "start_pacer cfg = \<lparr>count = 0, pool = unat (workers cfg), handed = []\<rparr>"

text \<open>
  One cycle of the \<open>for\<close> loop (lines 220-231), entered at instant \<open>now\<close>: the time
  slept, and the next state, or \<open>None\<close> when the loop returns.
\<close>

definition pace_cycle ::
  "int \<Rightarrow> uint64 \<Rightarrow> int \<Rightarrow> bool \<Rightarrow> bool \<Rightarrow> bool \<Rightarrow> pacer \<Rightarrow> int \<times> pacer option" where
  "pace_cycle began interval now ctx_done worker_ready coin st =
     (let next = next_send began interval (count st);
          slept = sleep_time (time_Sub next now)
      in (slept,
          case select_tick ctx_done worker_ready coin of
            CtxDone \<Rightarrow> None
          | TickSent \<Rightarrow> Some (st\<lparr>count := count st + 1, handed := handed st @ [count st]\<rparr>)
          | NoneReady \<Rightarrow> Some (st\<lparr>pool := pool st + 1\<rparr>)))"

subsection \<open>Concrete inputs\<close>

text \<open>Two accounts whose cache entries the synchronizer has already written.\<close>

definition demo_proc :: injectProcessor where
  "demo_proc =
     \<lparr>chainID = 1,
      nonces = [(''io1alice'', GoUint64 7), (''io1bob'', GoUint64 0)],
      accounts = [\<lparr>EncodedAddr = ''io1alice'', PriKey = PrivateKey ''a1'' ''io1alice''\<rparr>,
                  \<lparr>EncodedAddr = ''io1bob'', PriKey = PrivateKey ''b2'' ''io1bob''\<rparr>]\<rparr>"

text \<open>Two generated keys, a decoder that accepts every string, one key pair to load.\<close>

definition demo_keygen :: "nat \<Rightarrow> go_error + private_key" where
  "demo_keygen i = (if i = 0 then Inr (PrivateKey ''r0'' ''io1r0'') else Inr (PrivateKey ''r1'' ''io1r1''))"

definition demo_keylib :: keylib where
  "demo_keylib = \<lparr>HexStringToPublicKey = (\<lambda>s. Inr (PublicKey s (Some (''io1'' @ s)))),
                  HexStringToPrivateKey = (\<lambda>s. Inr (PrivateKey s (''io1'' @ s)))\<rparr>"

definition demo_load_cfg :: injectCfg where
  "demo_load_cfg = default_cfg\<lparr>cfg_randAccounts := 2, loadTokenAmount := 5\<rparr>"

definition fresh_proc :: injectProcessor where
  "fresh_proc = \<lparr>chainID = 1, nonces = [], accounts = []\<rparr>"

section \<open>Properties\<close>

lemma cache_Get_Set:
  "cache_Get (cache_Set k v c) k' = (if k' = k then Some v else cache_Get c k')"
  by (induction c) (auto simp: cache_Get_def)

subsection \<open>Allocation and the builders\<close>

lemma alloc_get_typed:
  "uint64_entry c a \<Longrightarrow> \<exists>v. alloc_get c a = Inr v"
  by (auto simp: uint64_entry_def alloc_get_def split: option.splits cache_val.splits)

lemma ready_pick:
  assumes "ready p" and "i < length (accounts p)"
  shows "\<exists>v. alloc_get (nonces p) (EncodedAddr (accounts p ! i)) = Inr v"
  using assms by (auto simp: ready_def list_all_length intro: alloc_get_typed)

lemma allocate_overwrite:
  "allocate (overwrite c A v) A = Inr (v, cache_Set A (GoUint64 (v + 1)) (overwrite c A v))"
  by (simp add: allocate_def alloc_get_def alloc_set_def overwrite_def cache_Get_Set)

lemma transferCaller_ok:
  assumes "accounts p \<noteq> []"
    and "alloc_get (nonces p) (EncodedAddr (accounts p ! (r 0 mod length (accounts p)))) = Inr v"
  shows "\<exists>cl r'. transferCaller cfg p r =
           Inr ((cl, None),
                p\<lparr>nonces := alloc_set (nonces p) (EncodedAddr (accounts p ! (r 0 mod length (accounts p)))) v\<rparr>, r')
         \<and> is_transfer cl \<and> call_nonce cl = v
         \<and> call_sender cl = accounts p ! (r 0 mod length (accounts p))"
  using assms
  by (simp add: transferCaller_def rand_Intn_def allocate_def rand_Int63_def Let_def)

lemma executionCaller_ok:
  assumes "accounts p \<noteq> []"
    and "alloc_get (nonces p) (EncodedAddr (accounts p ! (r 0 mod length (accounts p)))) = Inr v"
  shows "\<exists>cl r'. executionCaller cfg t p r =
           Inr ((cl, None),
                p\<lparr>nonces := alloc_set (nonces p) (EncodedAddr (accounts p ! (r 0 mod length (accounts p)))) v\<rparr>, r')
         \<and> \<not> is_transfer cl \<and> call_nonce cl = v
         \<and> call_sender cl = accounts p ! (r 0 mod length (accounts p))"
  using assms
  by (simp add: executionCaller_def rand_Intn_def allocate_def rand_Int63_def Let_def)


lemma builders_ready:
  assumes "ready p"
  shows "\<exists>cl p' r'. transferCaller cfg p r = Inr ((cl, None), p', r') \<and> is_transfer cl"
    and "\<exists>cl p' r'. executionCaller cfg t p r = Inr ((cl, None), p', r') \<and> \<not> is_transfer cl"
proof -
  from assms have ne: "accounts p \<noteq> []" by (simp add: ready_def)
  then have "r 0 mod length (accounts p) < length (accounts p)" by simp
  from ready_pick [OF assms this] obtain v where
    v: "alloc_get (nonces p) (EncodedAddr (accounts p ! (r 0 mod length (accounts p)))) = Inr v" ..
  from ne v transferCaller_ok [where p = p and r = r and cfg = cfg and v = v]
  show "\<exists>cl p' r'. transferCaller cfg p r = Inr ((cl, None), p', r') \<and> is_transfer cl"
    by blast
  from ne v executionCaller_ok [where p = p and r = r and cfg = cfg and v = v and t = t]
  show "\<exists>cl p' r'. executionCaller cfg t p r = Inr ((cl, None), p', r') \<and> \<not> is_transfer cl"
    by blast
qed

lemma demo_proc_ready: "ready demo_proc"
  by (simp add: ready_def demo_proc_def uint64_entry_def cache_Get_def)

text \<open>
  Claim C3. For every address \<open>A\<close> and value \<open>v\<close>: the synchronizer's write
  \<open>overwrite(A, v)\<close> followed at once by one allocation for \<open>A\<close> (the builder's draw picks
  an account whose address is \<open>A\<close>) hands out exactly \<open>v\<close> as the nonce and leaves the
  cache entry of \<open>A\<close> at \<open>v + 1\<close>, in \<open>uint64\<close> arithmetic. This holds for the shared
  allocation lines and for both builders that contain them.
\<close>

theorem C3_overwrite_then_allocate:
  assumes "accounts p \<noteq> []"
    and "EncodedAddr (accounts p ! (r 0 mod length (accounts p))) = A"
  shows "(\<exists>c'. allocate (overwrite (nonces p) A v) A = Inr (v, c')
            \<and> cache_Get c' A = Some (GoUint64 (v + 1)))
       \<and> (\<exists>cl p' r'. transferCaller cfg (p\<lparr>nonces := overwrite (nonces p) A v\<rparr>) r
                        = Inr ((cl, None), p', r')
            \<and> call_nonce cl = v \<and> cache_Get (nonces p') A = Some (GoUint64 (v + 1)))
       \<and> (\<exists>cl p' r'. executionCaller cfg t (p\<lparr>nonces := overwrite (nonces p) A v\<rparr>) r
                        = Inr ((cl, None), p', r')
            \<and> call_nonce cl = v \<and> cache_Get (nonces p') A = Some (GoUint64 (v + 1)))"
proof -
  let ?q = "p\<lparr>nonces := overwrite (nonces p) A v\<rparr>"
  have get: "alloc_get (nonces ?q) (EncodedAddr (accounts ?q ! (r 0 mod length (accounts ?q)))) = Inr v"
    using assms(2) by (simp add: alloc_get_def overwrite_def cache_Get_Set)
  have ne: "accounts ?q \<noteq> []" using assms(1) by simp
  have after: "cache_Get (alloc_set (nonces ?q) A v) A = Some (GoUint64 (v + 1))"
    by (simp add: alloc_set_def cache_Get_Set)
  have one: "\<exists>c'. allocate (overwrite (nonces p) A v) A = Inr (v, c')
            \<and> cache_Get c' A = Some (GoUint64 (v + 1))"
    by (simp add: allocate_overwrite cache_Get_Set)
  have two: "\<exists>cl p' r'. transferCaller cfg ?q r = Inr ((cl, None), p', r')
            \<and> call_nonce cl = v \<and> cache_Get (nonces p') A = Some (GoUint64 (v + 1))"
    using ne get transferCaller_ok [where p = ?q and r = r and cfg = cfg and v = v] assms(2) after
    by auto
  have three: "\<exists>cl p' r'. executionCaller cfg t ?q r = Inr ((cl, None), p', r')
            \<and> call_nonce cl = v \<and> cache_Get (nonces p') A = Some (GoUint64 (v + 1))"
    using ne get executionCaller_ok [where p = ?q and r = r and cfg = cfg and v = v and t = t]
      assms(2) after
    by auto
  from one two three show ?thesis by blast
qed

theorem C3_overwrite_then_allocate_witness:
  "(\<exists>c'. allocate (overwrite (nonces demo_proc) ''io1alice'' 42) ''io1alice'' = Inr (42, c')
       \<and> cache_Get c' ''io1alice'' = Some (GoUint64 43))
   \<and> (\<exists>cl p' r'. transferCaller default_cfg
                     (demo_proc\<lparr>nonces := overwrite (nonces demo_proc) ''io1alice'' 42\<rparr>) (\<lambda>i. 0)
                     = Inr ((cl, None), p', r')
         \<and> call_nonce cl = 42 \<and> cache_Get (nonces p') ''io1alice'' = Some (GoUint64 43))
   \<and> (\<exists>cl p' r'. executionCaller default_cfg 1700000000
                     (demo_proc\<lparr>nonces := overwrite (nonces demo_proc) ''io1alice'' 42\<rparr>) (\<lambda>i. 0)
                     = Inr ((cl, None), p', r')
         \<and> call_nonce cl = 42 \<and> cache_Get (nonces p') ''io1alice'' = Some (GoUint64 43))"
proof -
  have h1: "accounts demo_proc \<noteq> []"
    by (simp add: demo_proc_def)
  have h2: "EncodedAddr (accounts demo_proc ! ((\<lambda>i. 0) 0 mod length (accounts demo_proc))) = ''io1alice''"
    by (simp add: demo_proc_def)
  show ?thesis
    using h1 h2
      C3_overwrite_then_allocate [where p = demo_proc and r = "\<lambda>i. 0" and A = "''io1alice''"
        and v = 42 and cfg = default_cfg and t = 1700000000]
    by simp
qed

text \<open>
  Claim C9. The configured policy determines the kind of action: with \<open>transfer\<close> every
  pick is the transfer builder and yields a transfer, with \<open>execution\<close> every pick is the
  execution builder and yields a contract execution, and with \<open>mixed\<close> each pick consumes
  one fresh draw of \<open>rand.Intn(2)\<close> and builds a transfer when the draw is 0 and an
  execution when it is 1, so each of the two equally likely draws selects one kind.
\<close>

theorem C9_pickAction_policy:
  assumes "ready p"
  shows "(actionType cfg = ''transfer'' \<longrightarrow>
            pickAction cfg t p r = transferCaller cfg p r
            \<and> (\<exists>cl. built (pickAction cfg t p r) = Some cl \<and> is_transfer cl))
       \<and> (actionType cfg = ''execution'' \<longrightarrow>
            pickAction cfg t p r = executionCaller cfg t p r
            \<and> (\<exists>cl. built (pickAction cfg t p r) = Some cl \<and> \<not> is_transfer cl))
       \<and> (actionType cfg = ''mixed'' \<longrightarrow>
            pickAction cfg t p r
              = (if r 0 mod 2 = 0 then transferCaller cfg p (\<lambda>i. r (Suc i))
                 else executionCaller cfg t p (\<lambda>i. r (Suc i)))
            \<and> (\<exists>cl. built (pickAction cfg t p r) = Some cl
                  \<and> (is_transfer cl \<longleftrightarrow> r 0 mod 2 = 0)))"
proof -
  have tr: "\<exists>cl. built (transferCaller cfg p r') = Some cl \<and> is_transfer cl" for r'
    using builders_ready(1) [OF assms, of cfg r'] by (auto simp: built_def)
  have ex: "\<exists>cl. built (executionCaller cfg t p r') = Some cl \<and> \<not> is_transfer cl" for r'
    using builders_ready(2) [OF assms, of cfg t r'] by (auto simp: built_def)
  have mixed: "actionType cfg = ''mixed'' \<Longrightarrow>
      pickAction cfg t p r
        = (if r 0 mod 2 = 0 then transferCaller cfg p (\<lambda>i. r (Suc i))
           else executionCaller cfg t p (\<lambda>i. r (Suc i)))"
    by (simp add: pickAction_def rand_Intn_def)
  show ?thesis
  proof (intro conjI impI)
    assume "actionType cfg = ''mixed''"
    then show "\<exists>cl. built (pickAction cfg t p r) = Some cl \<and> (is_transfer cl \<longleftrightarrow> r 0 mod 2 = 0)"
      using mixed tr [of "\<lambda>i. r (Suc i)"] ex [of "\<lambda>i. r (Suc i)"] by auto
  qed (use tr ex mixed in \<open>simp_all add: pickAction_def\<close>)
qed

theorem C9_pickAction_policy_witness:
  "(\<exists>cl. built (pickAction default_cfg 1700000000 demo_proc (\<lambda>i. i)) = Some cl \<and> is_transfer cl)
   \<and> (\<exists>cl. built (pickAction (default_cfg\<lparr>actionType := ''execution''\<rparr>) 1700000000 demo_proc (\<lambda>i. i))
              = Some cl \<and> \<not> is_transfer cl)
   \<and> (\<exists>cl. built (pickAction (default_cfg\<lparr>actionType := ''mixed''\<rparr>) 1700000000 demo_proc (\<lambda>i. i))
              = Some cl \<and> is_transfer cl)
   \<and> (\<exists>cl. built (pickAction (default_cfg\<lparr>actionType := ''mixed''\<rparr>) 1700000000 demo_proc (\<lambda>i. Suc i))
              = Some cl \<and> \<not> is_transfer cl)"
proof -
  have a: "actionType default_cfg = ''transfer''"
    by (simp add: default_cfg_def)
  have one: "\<exists>cl. built (pickAction default_cfg 1700000000 demo_proc (\<lambda>i. i)) = Some cl \<and> is_transfer cl"
    using C9_pickAction_policy [OF demo_proc_ready, of default_cfg 1700000000 "\<lambda>i. i"] a
    by blast
  have b: "actionType (default_cfg\<lparr>actionType := ''execution''\<rparr>) = ''execution''"
    by simp
  have two: "\<exists>cl. built (pickAction (default_cfg\<lparr>actionType := ''execution''\<rparr>) 1700000000 demo_proc (\<lambda>i. i))
              = Some cl \<and> \<not> is_transfer cl"
    using C9_pickAction_policy [OF demo_proc_ready, of "default_cfg\<lparr>actionType := ''execution''\<rparr>"
        1700000000 "\<lambda>i. i"] b
    by blast
  have c: "actionType (default_cfg\<lparr>actionType := ''mixed''\<rparr>) = ''mixed''"
    by simp
  have heads: "(0::nat) mod 2 = 0" and tails: "Suc 0 mod 2 \<noteq> 0"
    by simp_all
  have three: "\<exists>cl. built (pickAction (default_cfg\<lparr>actionType := ''mixed''\<rparr>) 1700000000 demo_proc (\<lambda>i. i))
              = Some cl \<and> is_transfer cl"
    using C9_pickAction_policy [OF demo_proc_ready, of "default_cfg\<lparr>actionType := ''mixed''\<rparr>"
        1700000000 "\<lambda>i. i"] c heads
    by blast
  have four: "\<exists>cl. built (pickAction (default_cfg\<lparr>actionType := ''mixed''\<rparr>) 1700000000 demo_proc (\<lambda>i. Suc i))
              = Some cl \<and> \<not> is_transfer cl"
    using C9_pickAction_policy [OF demo_proc_ready, of "default_cfg\<lparr>actionType := ''mixed''\<rparr>"
        1700000000 "\<lambda>i. Suc i"] c tails
    by blast
  from one two three four show ?thesis by blast
qed

text \<open>
  Claim C10. For every configured action type other than \<open>transfer\<close>, \<open>execution\<close> and
  \<open>mixed\<close>, \<open>pickAction\<close> takes the default branch: it is the transfer builder, with no
  draw spent on the choice, and where that builder runs (an account to pick, typed cache
  entries) it returns a transfer and a nil error.
\<close>

theorem C10_unknown_type_is_transfer:
  assumes "actionType cfg \<notin> {''transfer'', ''execution'', ''mixed''}"
  shows "pickAction cfg t p r = transferCaller cfg p r
       \<and> (ready p \<longrightarrow>
            (\<exists>cl p' r'. pickAction cfg t p r = Inr ((cl, None), p', r') \<and> is_transfer cl))"
proof -
  have eq: "pickAction cfg t p r = transferCaller cfg p r"
    using assms by (simp add: pickAction_def)
  then show ?thesis using builders_ready(1) [of p cfg r] by auto
qed

theorem C10_unknown_type_is_transfer_witness:
  "pickAction (default_cfg\<lparr>actionType := ''random''\<rparr>) 1700000000 demo_proc (\<lambda>i. i)
     = transferCaller (default_cfg\<lparr>actionType := ''random''\<rparr>) demo_proc (\<lambda>i. i)
   \<and> (\<exists>cl p' r'. pickAction (default_cfg\<lparr>actionType := ''random''\<rparr>) 1700000000 demo_proc (\<lambda>i. i)
                     = Inr ((cl, None), p', r') \<and> is_transfer cl)"
proof -
  have h: "actionType (default_cfg\<lparr>actionType := ''random''\<rparr>) \<notin> {''transfer'', ''execution'', ''mixed''}"
    by simp
  show ?thesis
    using C10_unknown_type_is_transfer [OF h, of 1700000000 demo_proc "\<lambda>i. i"] demo_proc_ready
    by blast
qed

subsection \<open>Retrying and submission\<close>

lemma Retry_from_recovers:
  assumes "operation (k + j) = Inr v"
    and "\<forall>i<j. isl (operation (k + i)) \<and> b (k + i) \<noteq> None"
  shows "Retry_from operation b k = Some (Inr v, Suc (k + j))"
  using assms
proof (induction j arbitrary: k)
  case 0
  then show ?case by (subst Retry_from.simps) simp
next
  case (Suc j)
  from Suc.prems(2) have here: "isl (operation k)" "b k \<noteq> None"
    by (metis add.right_neutral zero_less_Suc)+
  have "Retry_from operation b (Suc k) = Some (Inr v, Suc (Suc k + j))"
  proof (rule Suc.IH)
    show "operation (Suc k + j) = Inr v" using Suc.prems(1) by simp
    show "\<forall>i<j. isl (operation (Suc k + i)) \<and> b (Suc k + i) \<noteq> None"
      using Suc.prems(2) by (metis Suc_less_eq add_Suc_right add_Suc)
  qed
  with here show ?case
    by (subst Retry_from.simps) (auto simp: isl_def)
qed

lemma Retry_from_gives_up:
  assumes "\<forall>i\<le>j. isl (operation (k + i))"
    and "\<forall>i<j. b (k + i) \<noteq> None"
    and "b (k + j) = None"
  shows "Retry_from operation b k = Some (operation (k + j), Suc (k + j))"
  using assms
proof (induction j arbitrary: k)
  case 0
  then show ?case by (subst Retry_from.simps) (auto simp: isl_def)
next
  case (Suc j)
  from Suc.prems have here: "isl (operation k)" "b k \<noteq> None"
    by (metis add.right_neutral zero_le, metis add.right_neutral zero_less_Suc)
  have "Retry_from operation b (Suc k) = Some (operation (Suc k + j), Suc (Suc k + j))"
  proof (rule Suc.IH)
    show "\<forall>i\<le>j. isl (operation (Suc k + i))"
      using Suc.prems(1) by (metis Suc_le_mono add_Suc_right add_Suc)
    show "\<forall>i<j. b (Suc k + i) \<noteq> None"
      using Suc.prems(2) by (metis Suc_less_eq add_Suc_right add_Suc)
    show "b (Suc k + j) = None" using Suc.prems(3) by simp
  qed
  with here show ?case
    by (subst Retry_from.simps) (auto simp: isl_def)
qed


lemma retry_policy_answers:
  "retry_policy cfg k = (if k < unat (retryNum cfg) then Some (retryInterval cfg) else None)"
  by (simp add: retry_policy_def WithMaxRetries_def NewConstantBackOff_def)

lemma Retry_bounded_exhausted:
  assumes "\<forall>k\<le>unat (retryNum cfg). isl (operation k)"
  shows "Retry operation (retry_policy cfg)
           = Some (operation (unat (retryNum cfg)), Suc (unat (retryNum cfg)))"
  unfolding Retry_def
  using Retry_from_gives_up [of "unat (retryNum cfg)" operation 0 "retry_policy cfg"] assms
  by (simp add: retry_policy_answers)

lemma Retry_bounded_success:
  assumes "k \<le> unat (retryNum cfg)" and "\<not> isl (operation k)"
  shows "\<exists>v j. j \<le> k \<and> operation j = Inr v
           \<and> Retry operation (retry_policy cfg) = Some (Inr v, Suc j)"
proof -
  define j where "j = (LEAST i. \<not> isl (operation i))"
  have nj: "\<not> isl (operation j)"
    unfolding j_def using assms(2) by (rule LeastI)
  have jk: "j \<le> k"
    unfolding j_def using assms(2) by (rule Least_le)
  have before: "\<forall>i<j. isl (operation i)"
    unfolding j_def using not_less_Least by blast
  from nj obtain v where v: "operation j = Inr v"
    by (cases "operation j") auto
  have "Retry_from operation (retry_policy cfg) 0 = Some (Inr v, Suc (0 + j))"
  proof (rule Retry_from_recovers)
    show "operation (0 + j) = Inr v" using v by simp
    show "\<forall>i<j. isl (operation (0 + i)) \<and> retry_policy cfg (0 + i) \<noteq> None"
      using before jk assms(1) by (simp add: retry_policy_answers)
  qed
  with v jk show ?thesis by (auto simp: Retry_def)
qed

lemma Retry_bounded_returns:
  "\<exists>res n. Retry operation (retry_policy cfg) = Some (res, n) \<and> n \<le> unat (retryNum cfg) + 1
     \<and> 0 < n \<and> res = operation (n - 1)"
proof (cases "\<forall>k\<le>unat (retryNum cfg). isl (operation k)")
  case True
  then show ?thesis using Retry_bounded_exhausted [of cfg operation] by simp
next
  case False
  then obtain k where "k \<le> unat (retryNum cfg)" "\<not> isl (operation k)" by blast
  then show ?thesis
    using Retry_bounded_success [where k = k and cfg = cfg and operation = operation] by auto
qed

lemma submit_exhausted:
  assumes "\<forall>k\<le>unat (retryNum cfg). isl (sends k)"
  shows "submit cfg sends = Some ([LogError ''Failed to inject.''], 0, unat (retryNum cfg) + 1)"
proof -
  from assms have "isl (sends (unat (retryNum cfg)))" by simp
  then obtain e where "sends (unat (retryNum cfg)) = Inl e"
    by (auto simp: isl_def)
  then show ?thesis
    using Retry_bounded_exhausted [OF assms] by (simp add: submit_def)
qed

lemma submit_success:
  assumes "k \<le> unat (retryNum cfg)" and "\<not> isl (sends k)"
  shows "\<exists>h j. j \<le> k \<and> sends j = Inr h \<and> submit cfg sends = Some ([], h, Suc j)"
  using assms Retry_bounded_success [where k = k and cfg = cfg and operation = sends]
  by (auto simp: submit_def)

text \<open>
  What holds of the submission stage (lines 242-249) under every configuration:
  \<open>caller.Call\<close> is called at most \<open>retryNum + 1\<close> times, every retry after the same
  delay \<open>retryInterval\<close>; when all of these attempts fail, "Failed to inject." is logged
  once and the action hash stays zero; when an attempt succeeds nothing is logged. With
  \<open>checkReceipt\<close> off the unit of work ends there with no fault.
\<close>

lemma submit_bounded_retry:
  "\<exists>lg h n. submit cfg sends = Some (lg, h, n)
     \<and> n \<le> unat (retryNum cfg) + 1
     \<and> (\<forall>k<unat (retryNum cfg). retry_policy cfg k = Some (retryInterval cfg))
     \<and> ((\<forall>k\<le>unat (retryNum cfg). isl (sends k)) \<longrightarrow>
           lg = [LogError ''Failed to inject.''] \<and> h = 0 \<and> n = unat (retryNum cfg) + 1)
     \<and> ((\<exists>k\<le>unat (retryNum cfg). \<not> isl (sends k)) \<longrightarrow> lg = [])
     \<and> (\<not> checkReceipt cfg \<longrightarrow>
           submit_and_check cfg sends polls
             = Some \<lparr>w_log = lg, w_fault = None, w_sends = n, w_polls = 0\<rparr>)"
proof (cases "\<forall>k\<le>unat (retryNum cfg). isl (sends k)")
  case True
  from submit_exhausted [OF True] True show ?thesis
    by (simp add: retry_policy_answers submit_and_check_def)
next
  case False
  then obtain k where k: "k \<le> unat (retryNum cfg)" "\<not> isl (sends k)" by blast
  from k submit_success [where k = k and cfg = cfg and sends = sends] obtain h j where
    "j \<le> k" "submit cfg sends = Some ([], h, Suc j)" by blast
  with k False show ?thesis
    by (simp add: retry_policy_answers submit_and_check_def)
qed

subsection \<open>The receipt check\<close>

lemma check_receipt_exhausted:
  assumes "\<forall>k\<le>unat (retryNum cfg). isl (polls k)"
  shows "check_receipt cfg polls
           = Some ([LogError ''Failed to get receipt.''],
                   Some (Panic ''invalid memory address or nil pointer dereference''),
                   unat (retryNum cfg) + 1)"
proof -
  from assms have "isl (polls (unat (retryNum cfg)))" by simp
  then obtain e where "polls (unat (retryNum cfg)) = Inl e"
    by (auto simp: isl_def)
  then show ?thesis
    using Retry_bounded_exhausted [OF assms]
    by (simp add: check_receipt_def receipt_status_def)
qed

lemma check_receipt_obtained:
  assumes "k \<le> unat (retryNum cfg)"
    and "\<forall>i<k. isl (polls i)"
    and "polls k = Inr (GetReceiptByActionResponse (Some (ReceiptInfo (Some (Receipt st)))))"
  shows "check_receipt cfg polls
           = Some (if st \<noteq> 1 then [LogError ''Receipt has failed status.''] else [], None, Suc k)"
proof -
  have "Retry_from polls (retry_policy cfg) 0
          = Some (Inr (GetReceiptByActionResponse (Some (ReceiptInfo (Some (Receipt st))))), Suc (0 + k))"
  proof (rule Retry_from_recovers)
    show "polls (0 + k) = Inr (GetReceiptByActionResponse (Some (ReceiptInfo (Some (Receipt st)))))"
      using assms(3) by simp
    show "\<forall>i<k. isl (polls (0 + i)) \<and> retry_policy cfg (0 + i) \<noteq> None"
      using assms(1,2) by (simp add: retry_policy_answers)
  qed
  then show ?thesis
    by (simp add: check_receipt_def receipt_status_def Retry_def)
qed

text \<open>
  Claim C2, evaluated where the code departs from it. With \<open>checkReceipt\<close> on and the
  default \<open>retryNum = 5\<close>, an action whose submission succeeds and whose six receipt
  polls all fail: "Failed to get receipt." is logged, and then the status of the nil
  \<open>response\<close> is read (line 262), which panics. The other half of the claim holds:
  \<open>check_receipt_obtained\<close> above compares the status of an obtained receipt with 1 and
  logs "Receipt has failed status." when it differs.
\<close>

theorem C2_receipt_poll_exhausted:
  "submit_and_check (default_cfg\<lparr>checkReceipt := True\<rparr>) (\<lambda>k. Inr 171) (\<lambda>h k. Inl ''not found'')
     = Some \<lparr>w_log = [LogError ''Failed to get receipt.''],
             w_fault = Some (Panic ''invalid memory address or nil pointer dereference''),
             w_sends = 1, w_polls = 6\<rparr>"
proof -
  let ?cfg = "default_cfg\<lparr>checkReceipt := True\<rparr>"
  have m: "unat (retryNum ?cfg) = 5"
    by (simp add: default_cfg_def)
  have "submit ?cfg (\<lambda>k. Inr 171) = Some ([], 171, Suc 0)"
    using submit_success [where cfg = ?cfg and k = 0 and sends = "\<lambda>k. Inr 171"]
    by auto
  moreover have "check_receipt ?cfg (\<lambda>k. Inl ''not found'')
      = Some ([LogError ''Failed to get receipt.''],
              Some (Panic ''invalid memory address or nil pointer dereference''), 6)"
    using check_receipt_exhausted [where cfg = ?cfg and polls = "\<lambda>k. Inl ''not found''"] m
    by simp
  ultimately show ?thesis
    by (simp add: submit_and_check_def)
qed

text \<open>
  Claim C8, evaluated where the code departs from it. With \<open>checkReceipt\<close> on and the
  default \<open>retryNum = 5\<close>, an action whose six submission attempts all fail:
  "Failed to inject." is logged, and the goroutine does not return. It goes on to the
  receipt check with the zero action hash (the remote service below knows a receipt for
  every hash but that one), polls six times, logs "Failed to get receipt." and panics on
  the nil \<open>response\<close> at line 262. The dropped action is not left alone, and the fault
  takes the process down.
\<close>

theorem C8_dropped_action_polled_and_panics:
  "submit_and_check (default_cfg\<lparr>checkReceipt := True\<rparr>) (\<lambda>k. Inl ''unavailable'')
     (\<lambda>h k. if h = 0 then Inl ''not found''
             else Inr (GetReceiptByActionResponse (Some (ReceiptInfo (Some (Receipt 1))))))
     = Some \<lparr>w_log = [LogError ''Failed to inject.'', LogError ''Failed to get receipt.''],
             w_fault = Some (Panic ''invalid memory address or nil pointer dereference''),
             w_sends = 6, w_polls = 6\<rparr>"
proof -
  let ?cfg = "default_cfg\<lparr>checkReceipt := True\<rparr>"
  have m: "unat (retryNum ?cfg) = 5"
    by (simp add: default_cfg_def)
  have "submit ?cfg (\<lambda>k. Inl ''unavailable'') = Some ([LogError ''Failed to inject.''], 0, 6)"
    using submit_exhausted [where cfg = ?cfg and sends = "\<lambda>k. Inl ''unavailable''"] m
    by simp
  moreover have "check_receipt ?cfg (\<lambda>k. Inl ''not found'')
      = Some ([LogError ''Failed to get receipt.''],
              Some (Panic ''invalid memory address or nil pointer dereference''), 6)"
    using check_receipt_exhausted [where cfg = ?cfg and polls = "\<lambda>k. Inl ''not found''"] m
    by simp
  ultimately show ?thesis
    by (simp add: submit_and_check_def)
qed

subsection \<open>The nonce synchronizer\<close>

lemma Retry_recovers:
  assumes "\<forall>i. b i \<noteq> None" and "\<forall>i<k. isl (operation i)" and "operation k = Inr v"
  shows "Retry operation b = Some (Inr v, Suc k)"
  unfolding Retry_def
  using Retry_from_recovers [where operation = operation and k = 0 and j = k and v = v and b = b] assms
  by simp

lemma syncNonces_loop_recovers:
  assumes "\<forall>i. b i \<noteq> None"
    and "\<forall>a\<in>set addrPool. (\<forall>i<ks a. isl (api a i)) \<and> api a (ks a) = Inr (vs a)"
  shows "\<exists>c'. syncNonces_loop api b addrPool c = Some (Inr c')
           \<and> (\<forall>a. cache_Get c' a
                  = (if a \<in> set addrPool then Some (GoUint64 (vs a)) else cache_Get c a))"
  using assms(2)
proof (induction addrPool arbitrary: c)
  case Nil
  then show ?case by simp
next
  case (Cons addr addrPool)
  have here: "Retry (api addr) b = Some (Inr (vs addr), Suc (ks addr))"
    using Cons.prems assms(1) by (intro Retry_recovers) auto
  from Cons.prems have rest: "\<forall>a\<in>set addrPool. (\<forall>i<ks a. isl (api a i)) \<and> api a (ks a) = Inr (vs a)"
    by simp
  from Cons.IH [OF rest, of "overwrite c addr (vs addr)"] obtain c' where
    c': "syncNonces_loop api b addrPool (overwrite c addr (vs addr)) = Some (Inr c')"
      "\<forall>a. cache_Get c' a
          = (if a \<in> set addrPool then Some (GoUint64 (vs a))
             else cache_Get (overwrite c addr (vs addr)) a)"
    by blast
  show ?case
    using here c' by (auto simp: overwrite_def cache_Get_Set)
qed

lemma syncNonces_loop_fatal:
  assumes "a \<in> set addrPool" and "Retry (api a) b = Some (Inl e, n)"
    and "\<forall>a'\<in>set addrPool. Retry (api a') b \<noteq> None"
  shows "syncNonces_loop api b addrPool c = Some (Inl (Fatal ''Failed to inject actions by APS''))"
  using assms
proof (induction addrPool arbitrary: c)
  case Nil
  then show ?case by simp
next
  case (Cons addr addrPool)
  from Cons.prems(3) obtain res m where r: "Retry (api addr) b = Some (res, m)"
    by fastforce
  show ?case
  proof (cases res)
    case (Inl e')
    with r show ?thesis by simp
  next
    case (Inr v)
    with r Cons.prems(2) have "a \<noteq> addr" by auto
    with Cons.prems have "a \<in> set addrPool" by simp
    from Cons.IH [OF this Cons.prems(2)] Cons.prems(3) r Inr show ?thesis by simp
  qed
qed

lemma syncNonces_loop_done:
  assumes "syncNonces_loop api b addrPool c = Some (Inr c')"
  shows "\<forall>a\<in>set addrPool. \<exists>v n. Retry (api a) b = Some (Inr v, n)"
  using assms
proof (induction addrPool arbitrary: c)
  case Nil
  then show ?case by simp
next
  case (Cons addr addrPool)
  then show ?case
    by (auto split: option.splits sum.splits prod.splits)
qed

text \<open>
  A round that succeeds leaves a \<open>uint64\<close> in every entry, so the builders' type
  assertion cannot fail afterwards: the values 1 and 0 written at start-up are never read
  as nonces.
\<close>

lemma syncNonces_loop_writes:
  assumes "syncNonces_loop api b addrPool c = Some (Inr c')"
  shows "\<forall>a. (a \<in> set addrPool \<longrightarrow> (\<exists>v. cache_Get c' a = Some (GoUint64 v)))
            \<and> (a \<notin> set addrPool \<longrightarrow> cache_Get c' a = cache_Get c a)"
  using assms
proof (induction addrPool arbitrary: c)
  case Nil
  then show ?case by simp
next
  case (Cons addr addrPool)
  from Cons.prems obtain v n where
    here: "Retry (api addr) b = Some (Inr v, n)"
    and rest: "syncNonces_loop api b addrPool (overwrite c addr v) = Some (Inr c')"
    by (auto split: option.splits sum.splits prod.splits)
  note ih = Cons.IH [OF rest]
  show ?case
  proof (intro allI conjI impI)
    fix a assume "a \<in> set (addr # addrPool)"
    show "\<exists>v. cache_Get c' a = Some (GoUint64 v)"
    proof (cases "a \<in> set addrPool")
      case True
      with ih show ?thesis by blast
    next
      case False
      with \<open>a \<in> set (addr # addrPool)\<close> have "a = addr" by simp
      with False ih show ?thesis
        by (simp add: overwrite_def cache_Get_Set)
    qed
  next
    fix a assume "a \<notin> set (addr # addrPool)"
    with ih show "cache_Get c' a = cache_Get c a"
      by (simp add: overwrite_def cache_Get_Set)
  qed
qed

lemma syncNonces_leaves_ready:
  assumes "syncNonces api b p = Some (Inr p')" and "accounts p \<noteq> []"
  shows "ready p'"
proof -
  from assms(1) obtain c' where
    run: "syncNonces_loop api b (cache_Keys (nonces p)) (nonces p) = Some (Inr c')"
    and p': "p' = p\<lparr>nonces := c'\<rparr>"
    by (auto simp: syncNonces_def split: option.splits sum.splits)
  have "uint64_entry c' a" for a
  proof (cases "a \<in> set (cache_Keys (nonces p))")
    case True
    with syncNonces_loop_writes [OF run] show ?thesis
      by (auto simp: uint64_entry_def)
  next
    case False
    then have "cache_Get (nonces p) a = None"
      by (simp add: cache_Keys_def cache_Get_def map_of_eq_None_iff)
    with False syncNonces_loop_writes [OF run] show ?thesis
      by (simp add: uint64_entry_def)
  qed
  with assms(2) p' show ?thesis
    by (simp add: ready_def list_all_iff)
qed

text \<open>
  Claim C4. In \<open>syncNonces\<close>, under a policy that never answers "stop" (the unbounded
  retry count of the exponential policy), a query is repeated after every failure, however
  many there are: when each address's query succeeds at some attempt, the round ends
  with every entry overwritten by the pending nonce of that attempt. A query whose
  \<open>Retry\<close> returns an error is fatal: the round ends in \<open>Fatal\<close>, the process stops and no
  cache is handed on. A round that hands a processor on has had a successful query for
  every address.
\<close>

theorem C4_syncNonces_retry_and_fatal:
  "((\<forall>i. b i \<noteq> None)
      \<and> (\<forall>a\<in>set (cache_Keys (nonces p)). (\<forall>i<ks a. isl (api a i)) \<and> api a (ks a) = Inr (vs a))
      \<longrightarrow> (\<exists>p'. syncNonces api b p = Some (Inr p')
             \<and> (\<forall>a\<in>set (cache_Keys (nonces p)).
                   cache_Get (nonces p') a = Some (GoUint64 (vs a)))))
   \<and> (a \<in> set (cache_Keys (nonces p)) \<and> Retry (api a) b = Some (Inl e, n)
        \<and> (\<forall>a'\<in>set (cache_Keys (nonces p)). Retry (api a') b \<noteq> None)
      \<longrightarrow> syncNonces api b p = Some (Inl (Fatal ''Failed to inject actions by APS'')))
   \<and> (\<forall>p'. syncNonces api b p = Some (Inr p')
      \<longrightarrow> (\<forall>a'\<in>set (cache_Keys (nonces p)). \<exists>v m. Retry (api a') b = Some (Inr v, m)))"
proof (intro conjI impI allI)
  assume h: "(\<forall>i. b i \<noteq> None)
      \<and> (\<forall>a\<in>set (cache_Keys (nonces p)). (\<forall>i<ks a. isl (api a i)) \<and> api a (ks a) = Inr (vs a))"
  then obtain c' where
    "syncNonces_loop api b (cache_Keys (nonces p)) (nonces p) = Some (Inr c')"
    "\<forall>a. cache_Get c' a
        = (if a \<in> set (cache_Keys (nonces p)) then Some (GoUint64 (vs a)) else cache_Get (nonces p) a)"
    using syncNonces_loop_recovers [where b = b and addrPool = "cache_Keys (nonces p)"
        and ks = ks and api = api and vs = vs and c = "nonces p"]
    by blast
  then show "\<exists>p'. syncNonces api b p = Some (Inr p')
             \<and> (\<forall>a\<in>set (cache_Keys (nonces p)). cache_Get (nonces p') a = Some (GoUint64 (vs a)))"
    by (simp add: syncNonces_def)
next
  assume "a \<in> set (cache_Keys (nonces p)) \<and> Retry (api a) b = Some (Inl e, n)
        \<and> (\<forall>a'\<in>set (cache_Keys (nonces p)). Retry (api a') b \<noteq> None)"
  then have "syncNonces_loop api b (cache_Keys (nonces p)) (nonces p)
               = Some (Inl (Fatal ''Failed to inject actions by APS''))"
    using syncNonces_loop_fatal [where a = a and api = api and b = b and e = e and n = n]
    by blast
  then show "syncNonces api b p = Some (Inl (Fatal ''Failed to inject actions by APS''))"
    by (simp add: syncNonces_def)
next
  fix p'
  assume "syncNonces api b p = Some (Inr p')"
  then obtain c' where "syncNonces_loop api b (cache_Keys (nonces p)) (nonces p) = Some (Inr c')"
    by (auto simp: syncNonces_def split: option.splits sum.splits)
  then show "\<forall>a'\<in>set (cache_Keys (nonces p)). \<exists>v m. Retry (api a') b = Some (Inr v, m)"
    by (rule syncNonces_loop_done)
qed

lemma demo_keys: "cache_Keys (nonces demo_proc) = [''io1alice'', ''io1bob'']"
  by (simp add: demo_proc_def cache_Keys_def)

theorem C4_syncNonces_retry_and_fatal_witness:
  "(\<exists>p'. syncNonces (\<lambda>a k. if k < 3 then Inl ''timeout'' else Inr 9) (NewExponentialBackOff 500 2) demo_proc
            = Some (Inr p')
       \<and> cache_Get (nonces p') ''io1alice'' = Some (GoUint64 9)
       \<and> cache_Get (nonces p') ''io1bob'' = Some (GoUint64 9))
   \<and> syncNonces (\<lambda>a k. Inl ''down'') (\<lambda>k. if k < 2 then Some 500 else None) demo_proc
       = Some (Inl (Fatal ''Failed to inject actions by APS''))"
proof -
  have never: "\<forall>i. NewExponentialBackOff 500 2 i \<noteq> None"
    by (simp add: NewExponentialBackOff_def)
  have okay: "\<forall>a\<in>set (cache_Keys (nonces demo_proc)).
      (\<forall>i<(\<lambda>a. 3) a. isl ((\<lambda>a k. if k < 3 then Inl ''timeout'' else Inr 9) a i))
      \<and> (\<lambda>a k. if k < 3 then Inl ''timeout'' else Inr (9::uint64)) a ((\<lambda>a. 3::nat) a) = Inr ((\<lambda>a. 9) a)"
    by simp
  have one: "\<exists>p'. syncNonces (\<lambda>a k. if k < 3 then Inl ''timeout'' else Inr 9) (NewExponentialBackOff 500 2) demo_proc
            = Some (Inr p')
       \<and> cache_Get (nonces p') ''io1alice'' = Some (GoUint64 9)
       \<and> cache_Get (nonces p') ''io1bob'' = Some (GoUint64 9)"
    using never okay
      C4_syncNonces_retry_and_fatal [where b = "NewExponentialBackOff 500 2" and p = demo_proc
        and ks = "\<lambda>a. 3" and vs = "\<lambda>a. 9"
        and api = "\<lambda>a k. if k < 3 then Inl ''timeout'' else Inr 9"]
    by (auto simp: demo_keys)
  have gave_up: "Retry (\<lambda>k. Inl ''down'' :: go_error + uint64) (\<lambda>k. if k < 2 then Some 500 else None)
                   = Some (Inl ''down'', 3)"
    by (simp add: Retry_def Retry_from.simps)
  have two: "syncNonces (\<lambda>a k. Inl ''down'') (\<lambda>k. if k < 2 then Some 500 else None) demo_proc
       = Some (Inl (Fatal ''Failed to inject actions by APS''))"
    using gave_up
      C4_syncNonces_retry_and_fatal [where b = "\<lambda>k. if k < 2 then Some 500 else None" and p = demo_proc
        and api = "\<lambda>a k. Inl ''down''" and a = "''io1alice''" and e = "''down''" and n = 3]
    by (simp add: demo_keys)
  from one two show ?thesis by blast
qed

subsection \<open>The pacing loop's handoff\<close>

text \<open>
  Claim C6. While the context is not done: when no worker is ready to receive, the cycle
  starts exactly one more worker (the pool grows by one), hands no token over and leaves
  the dispatch count as it was, and it returns (the \<open>select\<close> has a default case, so it
  does not wait for a receiver); when a worker is ready, the token \<open>count\<close> is handed
  over, the count advances by one and no worker is started.
\<close>

theorem C6_handoff_or_spawn:
  assumes "\<not> ctx_done"
  shows "(\<not> worker_ready \<longrightarrow>
            (\<exists>st'. snd (pace_cycle began interval now ctx_done worker_ready coin st) = Some st'
               \<and> pool st' = pool st + 1 \<and> count st' = count st \<and> handed st' = handed st))
       \<and> (worker_ready \<longrightarrow>
            (\<exists>st'. snd (pace_cycle began interval now ctx_done worker_ready coin st) = Some st'
               \<and> pool st' = pool st \<and> count st' = count st + 1
               \<and> handed st' = handed st @ [count st]))"
  using assms by (simp add: pace_cycle_def select_tick_def Let_def)

theorem C6_handoff_or_spawn_witness:
  "snd (pace_cycle 0 33333333 5 False False True (start_pacer default_cfg))
     = Some \<lparr>count = 0, pool = 11, handed = []\<rparr>
   \<and> snd (pace_cycle 0 33333333 5 False True True (start_pacer default_cfg))
     = Some \<lparr>count = 1, pool = 10, handed = [0]\<rparr>"
proof -
  have running: "\<not> False" by simp
  have st: "start_pacer default_cfg = \<lparr>count = 0, pool = 10, handed = []\<rparr>"
    by (simp add: start_pacer_def default_cfg_def)
  show ?thesis
    using C6_handoff_or_spawn [OF running, of False 0 33333333 5 True "start_pacer default_cfg"]
      C6_handoff_or_spawn [OF running, of True 0 33333333 5 True "start_pacer default_cfg"]
    by (auto simp: st)
qed

subsection \<open>Account setup\<close>

lemma randAccounts_loop_done:
  assumes "randAccounts_loop ks c acc = (c', Inr acc')"
  shows "acc' = acc @ map (\<lambda>k. \<lparr>EncodedAddr = sk_address (projr k), PriKey = projr k\<rparr>) ks
       \<and> (\<forall>a. cache_Get c' a
              = (if a \<in> (\<lambda>k. sk_address (projr k)) ` set ks then Some (GoInt 1) else cache_Get c a))"
  using assms
proof (induction ks c acc rule: randAccounts_loop.induct)
  case (1 c addrKeys)
  then show ?case by simp
next
  case (2 err ks c addrKeys)
  then show ?case by simp
next
  case (3 key ks c addrKeys)
  then show ?case by (auto simp: cache_Get_Set)
qed

lemma loadAccounts_pairs_done:
  assumes "loadAccounts_pairs lib pairs c acc = (c', Inr (Inr acc'))"
  shows "(\<forall>pair\<in>set pairs. \<exists>pk addr. HexStringToPublicKey lib (PK pair) = Inr pk
             \<and> pk_address pk = Some addr \<and> cache_Get c' addr = Some (GoInt 0))
       \<and> (\<forall>a. (\<forall>pair\<in>set pairs. \<forall>pk. HexStringToPublicKey lib (PK pair) = Inr pk
                   \<longrightarrow> pk_address pk \<noteq> Some a)
              \<longrightarrow> cache_Get c' a = cache_Get c a)
       \<and> (\<forall>a. cache_Get c a = Some (GoInt 0) \<longrightarrow> cache_Get c' a = Some (GoInt 0))"
  using assms
proof (induction pairs arbitrary: c acc)
  case Nil
  then show ?case by simp
next
  case (Cons pair pairs)
  from Cons.prems obtain pk sk addr where
    pk: "HexStringToPublicKey lib (PK pair) = Inr pk"
    and sk: "HexStringToPrivateKey lib (SK pair) = Inr sk"
    and addr: "pk_address pk = Some addr"
    and rest: "loadAccounts_pairs lib pairs (cache_Set addr (GoInt 0) c)
                 (acc @ [\<lparr>EncodedAddr = addr, PriKey = sk\<rparr>]) = (c', Inr (Inr acc'))"
    by (auto split: sum.splits option.splits)
  note ih = Cons.IH [OF rest]
  have here: "cache_Get c' addr = Some (GoInt 0)"
    using ih by (simp add: cache_Get_Set)
  show ?case
  proof (intro conjI ballI allI impI)
    fix pair' assume "pair' \<in> set (pair # pairs)"
    then show "\<exists>pk addr. HexStringToPublicKey lib (PK pair') = Inr pk
             \<and> pk_address pk = Some addr \<and> cache_Get c' addr = Some (GoInt 0)"
      using pk addr here ih by auto
  next
    fix a
    assume "\<forall>pair\<in>set (pair # pairs). \<forall>pk. HexStringToPublicKey lib (PK pair) = Inr pk
                   \<longrightarrow> pk_address pk \<noteq> Some a"
    then have "a \<noteq> addr" and "\<forall>pair\<in>set pairs. \<forall>pk. HexStringToPublicKey lib (PK pair) = Inr pk
                   \<longrightarrow> pk_address pk \<noteq> Some a"
      using pk addr by auto
    then show "cache_Get c' a = cache_Get c a"
      using ih by (simp add: cache_Get_Set)
  next
    fix a assume "cache_Get c a = Some (GoInt 0)"
    then have "cache_Get (cache_Set addr (GoInt 0) c) a = Some (GoInt 0)"
      by (simp add: cache_Get_Set)
    then show "cache_Get c' a = Some (GoInt 0)" using ih by blast
  qed
qed


lemma randAccounts_done:
  assumes "randAccounts num keygen p = Inr (p', None)"
  shows "accounts p' = map (\<lambda>i. \<lparr>EncodedAddr = sk_address (projr (keygen i)), PriKey = projr (keygen i)\<rparr>)
                         [0..<nat num]"
    and "\<forall>ak\<in>set (accounts p'). cache_Get (nonces p') (EncodedAddr ak) = Some (GoInt 1)"
proof -
  from assms obtain c' acc' where
    run: "randAccounts_loop (map keygen [0..<nat num]) (nonces p) [] = (c', Inr acc')"
    and p': "p' = p\<lparr>nonces := c', accounts := acc'\<rparr>"
    by (auto simp: randAccounts_def split: if_splits prod.splits sum.splits)
  note fin = randAccounts_loop_done [OF run]
  from fin p' show "accounts p' = map (\<lambda>i. \<lparr>EncodedAddr = sk_address (projr (keygen i)),
      PriKey = projr (keygen i)\<rparr>) [0..<nat num]"
    by (simp add: comp_def)
  from fin p' show "\<forall>ak\<in>set (accounts p'). cache_Get (nonces p') (EncodedAddr ak) = Some (GoInt 1)"
    by auto
qed

lemma loadAccounts_done:
  assumes "loadAccounts lib (Parsed pairs) calls q = Inr (q', lg, None)"
  shows "\<exists>acc'. loadAccounts_pairs lib pairs (nonces q) [] = (nonces q', Inr (Inr acc'))"
    and "accounts q' = accounts q"
  using assms
  by (auto simp: loadAccounts_def split: prod.splits sum.splits if_splits)

text \<open>
  Claim C7. \<open>randAccounts\<close> leaves the cache entry of every account it generates at 1,
  and \<open>loadAccounts\<close> leaves the entry of every account of the key-pair file at 0 (both
  stored as Go \<open>int\<close>). Run in the order of \<open>newInjectionProcessor\<close>, every loaded
  address ends at 0 and every generated account whose address is not a loaded one at 1.
\<close>

theorem C7_initial_nonces:
  "(\<forall>p'. randAccounts num keygen p = Inr (p', None) \<longrightarrow>
       accounts p' = map (\<lambda>i. \<lparr>EncodedAddr = sk_address (projr (keygen i)), PriKey = projr (keygen i)\<rparr>)
                       [0..<nat num]
       \<and> (\<forall>ak\<in>set (accounts p'). cache_Get (nonces p') (EncodedAddr ak) = Some (GoInt 1)))
   \<and> (\<forall>q' lg. loadAccounts lib (Parsed pairs) calls q = Inr (q', lg, None) \<longrightarrow>
       (\<forall>pair\<in>set pairs. \<exists>pk addr. HexStringToPublicKey lib (PK pair) = Inr pk
           \<and> pk_address pk = Some addr \<and> cache_Get (nonces q') addr = Some (GoInt 0)))
   \<and> (\<forall>p' lg. init_accounts cfg keygen lib (Parsed pairs) calls p = Inr (p', lg, None)
                \<and> loadTokenAmount cfg \<noteq> 0 \<longrightarrow>
       (\<forall>pair\<in>set pairs. \<exists>pk addr. HexStringToPublicKey lib (PK pair) = Inr pk
           \<and> pk_address pk = Some addr \<and> cache_Get (nonces p') addr = Some (GoInt 0))
       \<and> (\<forall>ak\<in>set (accounts p').
             (\<forall>pair\<in>set pairs. \<forall>pk. HexStringToPublicKey lib (PK pair) = Inr pk
                 \<longrightarrow> pk_address pk \<noteq> Some (EncodedAddr ak))
             \<longrightarrow> cache_Get (nonces p') (EncodedAddr ak) = Some (GoInt 1)))"
proof (intro conjI allI impI)
  fix p' assume "randAccounts num keygen p = Inr (p', None)"
  from randAccounts_done [OF this]
  show "accounts p' = map (\<lambda>i. \<lparr>EncodedAddr = sk_address (projr (keygen i)), PriKey = projr (keygen i)\<rparr>)
                       [0..<nat num]"
    and "\<forall>ak\<in>set (accounts p'). cache_Get (nonces p') (EncodedAddr ak) = Some (GoInt 1)"
    by blast+
next
  fix q' lg assume "loadAccounts lib (Parsed pairs) calls q = Inr (q', lg, None)"
  from loadAccounts_done(1) [OF this] obtain acc' where
    "loadAccounts_pairs lib pairs (nonces q) [] = (nonces q', Inr (Inr acc'))" ..
  from loadAccounts_pairs_done [OF this]
  show "\<forall>pair\<in>set pairs. \<exists>pk addr. HexStringToPublicKey lib (PK pair) = Inr pk
           \<and> pk_address pk = Some addr \<and> cache_Get (nonces q') addr = Some (GoInt 0)"
    by blast
next
  fix p' lg
  assume h: "init_accounts cfg keygen lib (Parsed pairs) calls p = Inr (p', lg, None)
                \<and> loadTokenAmount cfg \<noteq> 0"
  then obtain p1 where
    r: "randAccounts (cfg_randAccounts cfg) keygen p = Inr (p1, None)"
    and l: "loadAccounts lib (Parsed pairs) calls p1 = Inr (p', lg, None)"
    by (auto simp: init_accounts_def split: sum.splits prod.splits option.splits)
  from loadAccounts_done [OF l] obtain acc' where
    lp: "loadAccounts_pairs lib pairs (nonces p1) [] = (nonces p', Inr (Inr acc'))"
    and same: "accounts p' = accounts p1"
    by blast
  note ld = loadAccounts_pairs_done [OF lp]
  from ld show "\<forall>pair\<in>set pairs. \<exists>pk addr. HexStringToPublicKey lib (PK pair) = Inr pk
           \<and> pk_address pk = Some addr \<and> cache_Get (nonces p') addr = Some (GoInt 0)"
    by blast
  show "\<forall>ak\<in>set (accounts p').
             (\<forall>pair\<in>set pairs. \<forall>pk. HexStringToPublicKey lib (PK pair) = Inr pk
                 \<longrightarrow> pk_address pk \<noteq> Some (EncodedAddr ak))
             \<longrightarrow> cache_Get (nonces p') (EncodedAddr ak) = Some (GoInt 1)"
  proof (intro ballI impI)
    fix ak
    assume ak: "ak \<in> set (accounts p')"
      and fresh: "\<forall>pair\<in>set pairs. \<forall>pk. HexStringToPublicKey lib (PK pair) = Inr pk
                 \<longrightarrow> pk_address pk \<noteq> Some (EncodedAddr ak)"
    from ld fresh have "cache_Get (nonces p') (EncodedAddr ak) = cache_Get (nonces p1) (EncodedAddr ak)"
      by blast
    also have "\<dots> = Some (GoInt 1)"
      using randAccounts_done(2) [OF r] ak same by simp
    finally show "cache_Get (nonces p') (EncodedAddr ak) = Some (GoInt 1)" .
  qed
qed

lemma demo_init:
  "init_accounts demo_load_cfg demo_keygen demo_keylib (Parsed [\<lparr>PK = ''aa'', SK = ''bb''\<rparr>])
     (\<lambda>i. Inr 1) fresh_proc
   = Inr (\<lparr>chainID = 1,
           nonces = [(''io1r0'', GoInt 1), (''io1r1'', GoInt 1), (''io1aa'', GoInt 0)],
           accounts = [\<lparr>EncodedAddr = ''io1r0'', PriKey = PrivateKey ''r0'' ''io1r0''\<rparr>,
                       \<lparr>EncodedAddr = ''io1r1'', PriKey = PrivateKey ''r1'' ''io1r1''\<rparr>]\<rparr>,
          [], None)"
  by (simp add: init_accounts_def randAccounts_def loadAccounts_def demo_load_cfg_def
      default_cfg_def demo_keygen_def demo_keylib_def fresh_proc_def send_tokens_log_def
      upt_rec [of 0] upt_rec [of 1] upt_rec [of 2] upt_rec [of "Suc 0"] upt_rec [of "Suc (Suc 0)"])

theorem C7_initial_nonces_witness:
  "\<exists>p' lg. init_accounts demo_load_cfg demo_keygen demo_keylib (Parsed [\<lparr>PK = ''aa'', SK = ''bb''\<rparr>])
              (\<lambda>i. Inr 1) fresh_proc = Inr (p', lg, None)
     \<and> cache_Get (nonces p') ''io1aa'' = Some (GoInt 0)
     \<and> cache_Get (nonces p') ''io1r0'' = Some (GoInt 1)
     \<and> cache_Get (nonces p') ''io1r1'' = Some (GoInt 1)"
proof -
  have nz: "loadTokenAmount demo_load_cfg \<noteq> 0"
    by (simp add: demo_load_cfg_def)
  have pk: "HexStringToPublicKey demo_keylib ''aa'' = Inr (PublicKey ''aa'' (Some ''io1aa''))"
    by (simp add: demo_keylib_def)
  show ?thesis
    using demo_init nz pk
      C7_initial_nonces [where cfg = demo_load_cfg and keygen = demo_keygen and lib = demo_keylib
        and pairs = "[\<lparr>PK = ''aa'', SK = ''bb''\<rparr>]" and calls = "\<lambda>i. Inr 1" and p = fresh_proc]
    by (auto simp: cache_Get_def)
qed

subsection \<open>Concurrent allocation\<close>

lemma handed_out_Returned: "handed_out (map Returned vs @ replicate k Start) = vs"
  by (induction vs) (simp_all, induction k, simp_all)

lemma run_callers_append:
  "run_callers a (xs @ ys) s = run_callers a ys (run_callers a xs s)"
  by (simp add: run_callers_def)

lemma serial_Suc: "serial (Suc n) = serial n @ [n, n]"
  by (simp add: serial_def)

lemma alloc_get_after_set: "alloc_get (alloc_set c a v) a = Inr (v + 1)"
  by (simp add: alloc_get_def alloc_set_def cache_Get_Set)

lemma one_caller_runs:
  assumes "alloc_get c a = Inr w" and "length vs = n"
  shows "run_callers a [n, n] (c, map Returned vs @ replicate (Suc k) Start)
           = (alloc_set c a w, map Returned (vs @ [w]) @ replicate k Start)"
  using assms
  by (simp add: run_callers_def alloc_step_def nth_append list_update_append)

lemma serial_run:
  assumes "alloc_get c a = Inr v"
  shows "\<exists>c'. run_callers a (serial n) (c, replicate (n + k) Start)
                 = (c', map Returned (map (\<lambda>i. v + of_nat i) [0..<n]) @ replicate k Start)
              \<and> alloc_get c' a = Inr (v + of_nat n)"
proof (induction n arbitrary: k)
  case 0
  then show ?case using assms by (simp add: serial_def run_callers_def)
next
  case (Suc n)
  from Suc.IH [of "Suc k"] obtain c' where
    run: "run_callers a (serial n) (c, replicate (n + Suc k) Start)
            = (c', map Returned (map (\<lambda>i. v + of_nat i) [0..<n]) @ replicate (Suc k) Start)"
    and get: "alloc_get c' a = Inr (v + of_nat n)"
    by blast
  have len: "length (map (\<lambda>i. v + of_nat i) [0..<n]) = n" by simp
  have "run_callers a (serial (Suc n)) (c, replicate (Suc n + k) Start)
          = run_callers a [n, n] (c', map Returned (map (\<lambda>i. v + of_nat i) [0..<n]) @ replicate (Suc k) Start)"
    using run by (simp add: serial_Suc run_callers_append)
  also have "\<dots> = (alloc_set c' a (v + of_nat n),
                   map Returned (map (\<lambda>i. v + of_nat i) [0..<n] @ [v + of_nat n]) @ replicate k Start)"
    by (rule one_caller_runs [OF get len])
  finally have "run_callers a (serial (Suc n)) (c, replicate (Suc n + k) Start)
      = (alloc_set c' a (v + of_nat n),
         map Returned (map (\<lambda>i. v + of_nat i) [0..<Suc n]) @ replicate k Start)"
    by simp
  moreover have "alloc_get (alloc_set c' a (v + of_nat n)) a = Inr (v + of_nat (Suc n))"
    by (simp add: alloc_get_after_set add.assoc)
  ultimately show ?case by blast
qed

lemma run_distinct:
  assumes "n \<le> 2 ^ 64"
  shows "distinct (map (\<lambda>i. (v :: uint64) + of_nat i) [0..<n])"
proof -
  have "inj_on (\<lambda>i. v + (of_nat i :: uint64)) {0..<n}"
  proof (rule inj_onI)
    fix i j assume "i \<in> {0..<n}" "j \<in> {0..<n}" and eq: "v + of_nat i = v + (of_nat j :: uint64)"
    then have "i < 2 ^ 64" "j < 2 ^ 64" using assms by auto
    moreover from eq have "(of_nat i :: uint64) = of_nat j" by simp
    ultimately show "i = j"
      by (simp add: word_of_nat_eq_iff take_bit_nat_eq_self)
  qed
  then show ?thesis by (simp add: distinct_map)
qed

text \<open>
  Claim C1 as stated fails. Two callers allocate for the same address whose entry is 7;
  both read before either writes. Both are handed nonce 7 and the entry ends at 8: a
  duplicate, and no caller holds 8.
\<close>

theorem C1_interleaved_allocations_collide:
  "run_callers ''io1alice'' [0, 1, 0, 1] ([(''io1alice'', GoUint64 7)], [Start, Start])
     = ([(''io1alice'', GoUint64 8)], [Returned 7, Returned 7])
   \<and> \<not> distinct (handed_out (snd (run_callers ''io1alice'' [0, 1, 0, 1]
                                       ([(''io1alice'', GoUint64 7)], [Start, Start]))))"
  by (simp add: run_callers_def alloc_step_def alloc_get_def alloc_set_def cache_Get_def)

text \<open>
  Claim C1, amended. When \<open>n\<close> callers allocate for address \<open>A\<close> one after the other
  (no caller reads between another caller's read and write), the nonces handed out are
  \<open>v, v + 1, ..., v + (n - 1)\<close> in \<open>uint64\<close> arithmetic, where \<open>v\<close> is what \<open>A\<close>'s entry
  holds before the first call (0 for a missing entry); they are distinct for
  \<open>n \<le> 2^64\<close>, and the next allocation would be handed \<open>v + n\<close>.
\<close>

theorem C1_serial_allocations:
  assumes "alloc_get c A = Inr v" and "n \<le> 2 ^ 64"
  shows "handed_out (snd (run_callers A (serial n) (c, replicate n Start)))
           = map (\<lambda>i. v + of_nat i) [0..<n]
       \<and> distinct (handed_out (snd (run_callers A (serial n) (c, replicate n Start))))
       \<and> alloc_get (fst (run_callers A (serial n) (c, replicate n Start))) A = Inr (v + of_nat n)"
proof -
  from serial_run [OF assms(1), of n 0] obtain c' where
    "run_callers A (serial n) (c, replicate n Start)
       = (c', map Returned (map (\<lambda>i. v + of_nat i) [0..<n]) @ replicate 0 Start)"
    "alloc_get c' A = Inr (v + of_nat n)"
    by auto
  then show ?thesis
    using run_distinct [OF assms(2), of v] handed_out_Returned [of "map (\<lambda>i. v + of_nat i) [0..<n]" 0]
    by simp
qed

theorem C1_serial_allocations_witness:
  "handed_out (snd (run_callers ''io1alice'' (serial 3) (nonces demo_proc, replicate 3 Start)))
     = [7, 8, 9]
   \<and> alloc_get (fst (run_callers ''io1alice'' (serial 3) (nonces demo_proc, replicate 3 Start)))
       ''io1alice'' = Inr 10"
proof -
  have g: "alloc_get (nonces demo_proc) ''io1alice'' = Inr 7"
    by (simp add: demo_proc_def alloc_get_def cache_Get_def)
  have b: "(3::nat) \<le> 2 ^ 64" by simp
  have u: "[0..<3] = [0, 1, 2]" by (simp add: upt_rec)
  show ?thesis
    using C1_serial_allocations [OF g b] by (simp add: u)
qed

subsection \<open>The pacing schedule\<close>

text \<open>
  What the source fixes about the timing of the loop. For a target rate \<open>R\<close> with
  \<open>0 < R \<le> 10^9\<close> the interval is \<open>10^9 div R\<close> nanoseconds (integer division, line
  217). Dispatch \<open>n\<close> is due at \<open>began + n \<cdot> interval\<close> as long as the product stays
  below \<open>2^63\<close>. A cycle never sleeps a negative time: it sleeps nothing when the due
  instant has passed and otherwise exactly until it. How many tokens a run of a given
  duration hands out depends further on how long each cycle takes and on which case the
  \<open>select\<close> takes when both are ready; neither is determined by the source.
\<close>

lemma sint_of_nat_small:
  assumes "m < 2 ^ 63"
  shows "sint (of_nat m :: uint64) = int m"
proof -
  have "int m < 2 ^ 63" using assms by (metis of_nat_less_iff of_nat_numeral of_nat_power)
  then show ?thesis
    by (simp add: signed_of_nat signed_take_bit_int_eq_self)
qed

lemma next_send_exact:
  assumes "n * unat interval < 2 ^ 63"
  shows "next_send began interval (of_nat n) = began + int (n * unat interval)"
proof -
  have "(of_nat n :: uint64) * interval = of_nat (n * unat interval)"
    by simp
  then show ?thesis
    unfolding next_send_def using sint_of_nat_small [OF assms] by simp
qed

lemma pace_cycle_on_time:
  assumes "n * unat interval < 2 ^ 63" and "count st = of_nat n"
    and "began \<le> now" and "now \<le> began + int (n * unat interval)"
  shows "now + sleep_time (time_Sub (next_send began interval (count st)) now)
           = began + int (n * unat interval)"
proof -
  have nx: "next_send began interval (count st) = began + int (n * unat interval)"
    using assms(1,2) by (simp add: next_send_exact)
  have "int (n * unat interval) < 2 ^ 63"
    using assms(1) by (metis of_nat_less_iff of_nat_numeral of_nat_power)
  then have "time_Sub (began + int (n * unat interval)) now = began + int (n * unat interval) - now"
    using assms(3,4) by (simp add: time_Sub_def)
  then show ?thesis
    using nx assms(4) by (simp add: sleep_time_def)
qed

lemma interval_of_rate:
  assumes "0 < a" and "a \<le> 1000000000"
  shows "\<exists>interval. interval_of a = Inr interval
           \<and> unat interval = 1000000000 div nat a \<and> 0 < unat interval"
proof -
  let ?q = "1000000000 div nat a"
  have q: "1000000000 div a = int ?q"
    using assms by (simp add: zdiv_int)
  have pos: "0 < ?q"
    using assms by (simp add: div_greater_zero_iff)
  have "?q \<le> 1000000000" by (rule div_le_dividend)
  also have "(1000000000::nat) < 2 ^ 64" by simp
  finally have "?q < 2 ^ 64" .
  then have u: "unat (of_nat ?q :: uint64) = ?q"
    by (simp add: unat_of_nat take_bit_nat_eq_self flip: take_bit_eq_mod)
  have "interval_of a = Inr (of_nat ?q)"
    using assms q by (simp add: interval_of_def go_quot_def)
  with u pos show ?thesis by simp
qed

lemma sleep_never_negative:
  "0 \<le> fst (pace_cycle began interval now cd wr coin st)"
  by (simp add: pace_cycle_def Let_def sleep_time_def)

lemma sleep_behind_schedule:
  assumes "next_send began interval (count st) \<le> now"
  shows "fst (pace_cycle began interval now cd wr coin st) = 0"
  using assms by (simp add: pace_cycle_def Let_def sleep_time_def time_Sub_def)

lemma sleep_until_next:
  assumes "now \<le> next_send began interval (count st)"
    and "next_send began interval (count st) - now < 2 ^ 63"
  shows "now + fst (pace_cycle began interval now cd wr coin st)
           = next_send began interval (count st)"
  using assms by (simp add: pace_cycle_def Let_def sleep_time_def time_Sub_def)

lemma default_interval: "interval_of (aps default_cfg) = Inr 33333333"
  by (simp add: interval_of_def go_quot_def default_cfg_def)

end
